theory Spec2Isabelle
  imports Complex_Main "HOL-Library.Monad_Syntax" "HOL-Library.Log_Nat"
begin

section \<open>The entity graph of \<^verbatim>\<open>EntityGraph.tsx\<close>\<close>

text \<open>
  The component keeps a list of simulation nodes (\<^verbatim>\<open>nodesRef\<close>), advances it by one
  physics step per animation frame (\<^verbatim>\<open>draw\<close>), draws the edges, the nodes and a tooltip,
  and tracks the hovered node on every mouse move (\<^verbatim>\<open>handleMouseMove\<close>).

  Numbers. A JavaScript number is an IEEE-754 double. The layout arithmetic is embedded
  over the reals: rounding and overflow of the intermediate results are not represented.
  What the reals cannot say, that a division by zero gives \<^verbatim>\<open>Infinity\<close> or \<^verbatim>\<open>NaN\<close>, is made
  a value of the model: \<open>js_div\<close> returns \<open>None\<close> there, and the loops propagate it.
  Only \<^verbatim>\<open>parseFloat\<close> is embedded with its rounding to the nearest double, since the
  classification of an edge compares its result with a constant.

  Strings. A \<open>char\<close> stands for one UTF-16 code unit below 256.
\<close>

subsection \<open>Data model\<close>

text \<open>\<^verbatim>\<open>metadata?: any\<close>: the values a JSON payload can hold.\<close>

datatype jsval =
    Undefined
  | Null
  | Bool bool
  | Num real
  | Str string
  | Obj "(string \<times> jsval) list"

text \<open>\<^verbatim>\<open>ToBoolean\<close>, as the conditional operator applies it.\<close>

fun truthy :: "jsval \<Rightarrow> bool" where
  "truthy Undefined = False"
| "truthy Null = False"
| "truthy (Bool b) = b"
| "truthy (Num r) = (r \<noteq> 0)"
| "truthy (Str s) = (s \<noteq> [])"
| "truthy (Obj kvs) = True"

text \<open>
  \<^verbatim>\<open>v?.key\<close>: \<^verbatim>\<open>undefined\<close> on \<^verbatim>\<open>undefined\<close> and \<^verbatim>\<open>null\<close>, the property of an object, and
  \<^verbatim>\<open>undefined\<close> for a property that a primitive or the object does not have.
\<close>

fun opt_chain :: "jsval \<Rightarrow> string \<Rightarrow> jsval" where
  "opt_chain (Obj kvs) key = (case map_of kvs key of Some v \<Rightarrow> v | None \<Rightarrow> Undefined)"
| "opt_chain v key = Undefined"

record GraphEdge =
  source :: string
  target :: string
  label :: string
  amount :: "real option"
  tx_id :: "string option"

record GraphNode =
  id_node :: string
  label :: string
  type :: string
  risk :: bool
  country :: string
  metadata :: jsval

record GraphData =
  nodes :: "GraphNode list"
  edges :: "GraphEdge list"
  alert_id :: string

record SimNode = GraphNode +
  x :: real
  y :: real
  vx :: real
  vy :: real
  radius :: real

subsection \<open>Initialisation of the simulation nodes\<close>

text \<open>\<^verbatim>\<open>n.type === "account" ? 8 : n.metadata?.is_primary ? 16 : 12\<close>\<close>

definition init_radius :: "GraphNode \<Rightarrow> real" where
  "init_radius n =
     (if type n = ''account'' then 8
      else if truthy (opt_chain (metadata n) ''is_primary'') then 16
      else 12)"

text \<open>
  One element of \<^verbatim>\<open>graph.nodes.map(...)\<close>. \<open>rx\<close> and \<open>ry\<close> are the results of the two calls
  of \<^verbatim>\<open>Math.random()\<close> the element makes.
\<close>

definition init_node :: "real \<Rightarrow> real \<Rightarrow> GraphNode \<Rightarrow> real \<Rightarrow> real \<Rightarrow> SimNode" where
  "init_node W H n rx ry =
     GraphNode.extend n
       (SimNode.fields (W / 2 + (rx - 0.5) * 200) (H / 2 + (ry - 0.5) * 200) 0 0 (init_radius n))"

text \<open>
  The map over \<^verbatim>\<open>graph.nodes\<close>; \<open>rnd k\<close> is the result of the \<open>k\<close>-th call of
  \<^verbatim>\<open>Math.random()\<close> from now on, so the node at index \<open>i\<close> takes \<open>rnd (2 * i)\<close> for
  \<open>x\<close> and \<open>rnd (2 * i + 1)\<close> for \<open>y\<close>.
\<close>

fun init_nodes :: "real \<Rightarrow> real \<Rightarrow> (nat \<Rightarrow> real) \<Rightarrow> nat \<Rightarrow> GraphNode list \<Rightarrow> SimNode list" where
  "init_nodes W H rnd i [] = []"
| "init_nodes W H rnd i (n # ns) =
     init_node W H n (rnd (2 * i)) (rnd (2 * i + 1)) # init_nodes W H rnd (Suc i) ns"

text \<open>
  The mutable references of the component: \<^verbatim>\<open>nodesRef\<close>, \<^verbatim>\<open>hoveredRef\<close> (a reference to
  an element of \<^verbatim>\<open>nodesRef.current\<close>, here its index), \<^verbatim>\<open>animRef\<close> (whether a frame is
  requested) and the cursor style of the canvas.
\<close>

record refs =
  nodesRef :: "SimNode list"
  hoveredRef :: "nat option"
  animRef :: bool
  cursor :: string

text \<open>
  The effect that depends on \<^verbatim>\<open>[graph, draw]\<close>. \<open>canvas\<close> is the bounding rectangle
  \<open>(width, height)\<close> of the mounted canvas, \<open>None\<close> when \<^verbatim>\<open>canvasRef.current\<close> is null.
  \<^verbatim>\<open>rect.width || 600\<close> takes 600 when the width is 0.
\<close>

definition init_effect ::
  "GraphData option \<Rightarrow> (real \<times> real) option \<Rightarrow> (nat \<Rightarrow> real) \<Rightarrow> refs \<Rightarrow> refs" where
  "init_effect graph canvas rnd st =
     (case graph of
        None \<Rightarrow> st\<lparr>animRef := False\<rparr>
      | Some g \<Rightarrow>
          if nodes g = [] then st\<lparr>animRef := False\<rparr>
          else (case canvas of
                  None \<Rightarrow> st
                | Some (w, h) \<Rightarrow>
                    let W = (if w = 0 then 600 else w);
                        H = (if h = 0 then 400 else h)
                    in st\<lparr>nodesRef := init_nodes W H rnd 0 (nodes g),
                          hoveredRef := None,
                          animRef := True\<rparr>))"

subsection \<open>The physics step of \<^verbatim>\<open>draw\<close>\<close>

text \<open>The constants of the step; \<open>k_spring\<close> is the spring constant \<^verbatim>\<open>k\<close>.\<close>

definition k_spring :: real where "k_spring = 0.005"
definition repulsion :: real where "repulsion = 3000"
definition damping :: real where "damping = 0.85"
definition centerForce :: real where "centerForce = 0.01"

text \<open>
  Division by a variable: a zero divisor gives \<^verbatim>\<open>Infinity\<close> or \<^verbatim>\<open>NaN\<close> in JavaScript, \<open>None\<close>
  here.
\<close>

definition js_div :: "real \<Rightarrow> real \<Rightarrow> real option" where
  "js_div a b = (if b = 0 then None else Some (a / b))"

text \<open>
  The body of the repulsion loops for the pair \<open>(i, j)\<close>: the velocity of
  \<^verbatim>\<open>nodes[i]\<close> is decreased, the velocity of \<^verbatim>\<open>nodes[j]\<close> increased.
\<close>

definition repel_pair :: "nat \<Rightarrow> nat \<Rightarrow> SimNode list \<Rightarrow> SimNode list option" where
  "repel_pair i j ns =
     (let dx = x (ns ! j) - x (ns ! i);
          dy = y (ns ! j) - y (ns ! i);
          dist = max (sqrt (dx * dx + dy * dy)) 1
      in do {
        force \<leftarrow> js_div repulsion (dist * dist);
        ux \<leftarrow> js_div dx dist;
        uy \<leftarrow> js_div dy dist;
        let fx = ux * force;
            fy = uy * force;
            ns1 = ns[i := (ns ! i)\<lparr>vx := vx (ns ! i) - fx, vy := vy (ns ! i) - fy\<rparr>];
            ns2 = ns1[j := (ns1 ! j)\<lparr>vx := vx (ns1 ! j) + fx, vy := vy (ns1 ! j) + fy\<rparr>]
        in Some ns2
      })"

text \<open>
  \<^verbatim>\<open>for (let i = 0; i < nodes.length; i++) for (let j = i + 1; j < nodes.length; j++)\<close>:
  the inner loop over a list of values of \<open>j\<close>, the outer over a list of values of \<open>i\<close>.
\<close>

fun repel_inner :: "nat \<Rightarrow> nat list \<Rightarrow> SimNode list \<Rightarrow> SimNode list option" where
  "repel_inner i [] ns = Some ns"
| "repel_inner i (j # js) ns = do { ns' \<leftarrow> repel_pair i j ns; repel_inner i js ns' }"

fun repel_outer :: "nat list \<Rightarrow> SimNode list \<Rightarrow> SimNode list option" where
  "repel_outer [] ns = Some ns"
| "repel_outer (i # is) ns =
     do { ns' \<leftarrow> repel_inner i [i + 1 ..< length ns] ns; repel_outer is ns' }"

definition repel_all :: "SimNode list \<Rightarrow> SimNode list option" where
  "repel_all ns = repel_outer [0 ..< length ns] ns"

text \<open>
  \<^verbatim>\<open>new Map(nodes.map((n) => [n.id, n]))\<close>: a node is given by its index in the list, and
  of two nodes with the same id the later one is kept.
\<close>

definition nodeMap :: "SimNode list \<Rightarrow> (string \<rightharpoonup> nat)" where
  "nodeMap ns = map_of (rev (zip (map id_node ns) [0 ..< length ns]))"

text \<open>
  The body of the spring loop for one edge: \<^verbatim>\<open>continue\<close> when an end is not in the map;
  otherwise the source node \<open>s\<close> is updated first and the target \<open>t\<close>, which may be the same
  node, is read after that.
\<close>

definition spring_edge :: "(string \<rightharpoonup> nat) \<Rightarrow> GraphEdge \<Rightarrow> SimNode list \<Rightarrow> SimNode list option" where
  "spring_edge nm e ns =
     (case (nm (source e), nm (target e)) of
        (Some si, Some ti) \<Rightarrow>
          (let dx = x (ns ! ti) - x (ns ! si);
               dy = y (ns ! ti) - y (ns ! si);
               dist = max (sqrt (dx * dx + dy * dy)) 1;
               force = k_spring * (dist - 120)
           in do {
             ux \<leftarrow> js_div dx dist;
             uy \<leftarrow> js_div dy dist;
             let fx = ux * force;
                 fy = uy * force;
                 ns1 = ns[si := (ns ! si)\<lparr>vx := vx (ns ! si) + fx, vy := vy (ns ! si) + fy\<rparr>];
                 ns2 = ns1[ti := (ns1 ! ti)\<lparr>vx := vx (ns1 ! ti) - fx, vy := vy (ns1 ! ti) - fy\<rparr>]
             in Some ns2
           })
      | _ \<Rightarrow> Some ns)"

fun spring_all :: "(string \<rightharpoonup> nat) \<Rightarrow> GraphEdge list \<Rightarrow> SimNode list \<Rightarrow> SimNode list option" where
  "spring_all nm [] ns = Some ns"
| "spring_all nm (e # es) ns = do { ns' \<leftarrow> spring_edge nm e ns; spring_all nm es ns' }"

text \<open>Centre gravity, damping, the new position and its clamping, for one node.\<close>

definition integrate :: "real \<Rightarrow> real \<Rightarrow> SimNode \<Rightarrow> SimNode" where
  "integrate W H n =
     (let vx1 = (vx n + (W / 2 - x n) * centerForce) * damping;
          vy1 = (vy n + (H / 2 - y n) * centerForce) * damping;
          x1 = x n + vx1;
          y1 = y n + vy1
      in n\<lparr>vx := vx1, vy := vy1,
            x := max (radius n) (min (W - radius n) x1),
            y := max (radius n) (min (H - radius n) y1)\<rparr>)"

text \<open>The physics step: the three loops in their order.\<close>

definition simulate :: "real \<Rightarrow> real \<Rightarrow> GraphEdge list \<Rightarrow> SimNode list \<Rightarrow> SimNode list option" where
  "simulate W H es ns =
     do {
       ns1 \<leftarrow> repel_all ns;
       ns2 \<leftarrow> spring_all (nodeMap ns1) es ns1;
       Some (map (integrate W H) ns2)
     }"

text \<open>\<open>N\<close> steps on a canvas of constant size.\<close>

fun run :: "nat \<Rightarrow> real \<Rightarrow> real \<Rightarrow> GraphEdge list \<Rightarrow> SimNode list \<Rightarrow> SimNode list option" where
  "run 0 W H es ns = Some ns"
| "run (Suc N) W H es ns = do { ns' \<leftarrow> simulate W H es ns; run N W H es ns' }"

subsection \<open>\<^verbatim>\<open>parseFloat\<close> and the classification of an edge\<close>

text \<open>
  A JavaScript number as \<^verbatim>\<open>parseFloat\<close> returns it: \<^verbatim>\<open>NaN\<close>, an infinity, or a finite
  double, given by the real number it denotes.
\<close>

datatype jsnum = NaN | PosInf | NegInf | Fin real

text \<open>
  Rounding of the rational \<open>num / den\<close> to the nearest double, ties to the even
  significand. \<open>floor_log2\<close> is the exponent of the leading bit of a positive
  \<open>num / den\<close>. The significand has 53 bits and the exponent of its last bit is at least
  \<open>-1074\<close>; \<open>round_at e\<close> rounds to a multiple of \<open>2 ^ e\<close>, and a result of \<open>2 ^ 1024\<close>
  or more is \<^verbatim>\<open>Infinity\<close>. (ECMAScript lets an implementation cut a literal of more than
  20 significant digits to 20 before rounding; here, as in the engines in use, the exact
  value is rounded.)
\<close>

definition floor_log2 :: "nat \<Rightarrow> nat \<Rightarrow> int" where
  "floor_log2 num den =
     (let k = int (floorlog 2 num) - int (floorlog 2 den)
      in if den * 2 ^ nat k \<le> num * 2 ^ nat (- k) then k else k - 1)"

definition round_at :: "int \<Rightarrow> nat \<Rightarrow> nat \<Rightarrow> jsnum" where
  "round_at e num den =
     (let n' = num * 2 ^ nat (- e);
          d' = den * 2 ^ nat e;
          q = n' div d';
          r = n' mod d';
          m = (if d' < 2 * r \<or> (2 * r = d' \<and> odd q) then q + 1 else q)
      in if (2::nat) ^ 1024 \<le> m * 2 ^ nat e then PosInf
         else Fin (real (m * 2 ^ nat e) / real (2 ^ nat (- e))))"

definition round_double :: "nat \<Rightarrow> nat \<Rightarrow> jsnum" where
  "round_double num den =
     (if num = 0 then Fin 0
      else round_at (max (floor_log2 num den - 52) (- 1074)) num den)"

definition js_neg :: "jsnum \<Rightarrow> jsnum" where
  "js_neg v = (case v of NaN \<Rightarrow> NaN | PosInf \<Rightarrow> NegInf | NegInf \<Rightarrow> PosInf | Fin r \<Rightarrow> Fin (- r))"

text \<open>\<^verbatim>\<open>a > c\<close> for a finite \<open>c\<close>: false on \<^verbatim>\<open>NaN\<close>.\<close>

definition js_gt :: "jsnum \<Rightarrow> real \<Rightarrow> bool" where
  "js_gt v c = (case v of NaN \<Rightarrow> False | PosInf \<Rightarrow> True | NegInf \<Rightarrow> False | Fin r \<Rightarrow> c < r)"

text \<open>White space and line terminators among the code units below 256.\<close>

definition isWhiteSpace :: "char \<Rightarrow> bool" where
  "isWhiteSpace c \<longleftrightarrow> (of_char c :: nat) \<in> {9, 10, 11, 12, 13, 32, 160}"

definition isDigit :: "char \<Rightarrow> bool" where
  "isDigit c \<longleftrightarrow> c \<in> set ''0123456789''"

definition digitsVal :: "string \<Rightarrow> nat" where
  "digitsVal ds = foldl (\<lambda>a c. 10 * a + (of_char c - 48)) 0 ds"

text \<open>
  The exponent of the longest \<^verbatim>\<open>ExponentPart\<close> that \<open>s\<close> starts with: \<^verbatim>\<open>e\<close> or \<^verbatim>\<open>E\<close>, an
  optional sign, at least one digit. Without one the exponent is 0.
\<close>

definition exponentPart :: "string \<Rightarrow> int" where
  "exponentPart s =
     (case s of
        [] \<Rightarrow> 0
      | c # r \<Rightarrow>
          if c = CHR ''e'' \<or> c = CHR ''E'' then
            (case r of
               [] \<Rightarrow> 0
             | d # r' \<Rightarrow>
                 if d = CHR ''+'' then int (digitsVal (takeWhile isDigit r'))
                 else if d = CHR ''-'' then - int (digitsVal (takeWhile isDigit r'))
                 else int (digitsVal (takeWhile isDigit r)))
          else 0)"

text \<open>
  The value of the longest prefix of \<open>s\<close> that is a \<^verbatim>\<open>StrUnsignedDecimalLiteral\<close>:
  \<^verbatim>\<open>Infinity\<close>, or digits with an optional fraction and exponent, where the digits before
  or after the point may be missing but not both. \<^verbatim>\<open>NaN\<close> when there is no such prefix.
\<close>

definition strUnsignedDecimalLiteral :: "string \<Rightarrow> jsnum" where
  "strUnsignedDecimalLiteral s =
     (if take 8 s = ''Infinity'' then PosInf
      else
        let ip = takeWhile isDigit s;
            r1 = dropWhile isDigit s;
            fp = (case r1 of [] \<Rightarrow> [] | c # r \<Rightarrow> if c = CHR ''.'' then takeWhile isDigit r else []);
            r2 = (case r1 of [] \<Rightarrow> [] | c # r \<Rightarrow> if c = CHR ''.'' then dropWhile isDigit r else r1)
        in if ip = [] \<and> fp = [] then NaN
           else
             let m = digitsVal (ip @ fp);
                 e = exponentPart r2 - int (length fp)
             in round_double (m * 10 ^ nat e) (10 ^ nat (- e)))"

definition parseFloat :: "string \<Rightarrow> jsnum" where
  "parseFloat s =
     (case dropWhile isWhiteSpace s of
        [] \<Rightarrow> NaN
      | c # r \<Rightarrow>
          if c = CHR ''-'' then js_neg (strUnsignedDecimalLiteral r)
          else if c = CHR ''+'' then strUnsignedDecimalLiteral r
          else strUnsignedDecimalLiteral (c # r))"

text \<open>\<^verbatim>\<open>label.replace(/[$,]/g, "")\<close>\<close>

definition replace_dollar_comma :: "string \<Rightarrow> string" where
  "replace_dollar_comma s = filter (\<lambda>c. c \<noteq> CHR ''$'' \<and> c \<noteq> CHR '','') s"

text \<open>
  \<^verbatim>\<open>edge.label.includes("$") && parseFloat(edge.label.replace(/[$,]/g, "")) > 50000\<close>
\<close>

definition isSuspicious :: "GraphEdge \<Rightarrow> bool" where
  "isSuspicious e \<longleftrightarrow>
     CHR ''$'' \<in> set (GraphEdge.label e)
     \<and> js_gt (parseFloat (replace_dollar_comma (GraphEdge.label e))) 50000"

subsection \<open>Drawing the edges and the tooltip\<close>

text \<open>
  The calls on the canvas context that the claims are about. \<open>StrokeLine\<close> is the path from
  the source to the target with its stroke style and line width; \<open>FillArrow\<close> is the
  triangle at the midpoint, given by the midpoint, the two arguments of \<^verbatim>\<open>Math.atan2\<close> and
  the fill style; \<open>FillText\<close> is a text at a position; \<open>RoundRect\<close> is the tooltip panel.
\<close>

datatype draw_cmd =
    StrokeLine real real real real string real
  | FillArrow real real real real string
  | FillText string real real
  | RoundRect real real real real

definition draw_edge :: "(string \<rightharpoonup> nat) \<Rightarrow> SimNode list \<Rightarrow> GraphEdge \<Rightarrow> draw_cmd list" where
  "draw_edge nm ns e =
     (case (nm (source e), nm (target e)) of
        (Some si, Some ti) \<Rightarrow>
          (let s = ns ! si;
               t = ns ! ti;
               midX = (x s + x t) / 2;
               midY = (y s + y t) / 2
           in [StrokeLine (x s) (y s) (x t) (y t)
                 (if isSuspicious e then ''rgba(229, 77, 77, 0.35)'' else ''rgba(201, 168, 76, 0.15)'')
                 (if isSuspicious e then 1.5 else 0.8),
               FillArrow midX midY (y t - y s) (x t - x s)
                 (if isSuspicious e then ''rgba(229, 77, 77, 0.4)'' else ''rgba(201, 168, 76, 0.2)'')]
              @ (if GraphEdge.label e \<noteq> [] then [FillText (GraphEdge.label e) midX (midY - 6)] else []))
      | _ \<Rightarrow> [])"

definition draw_edges :: "(string \<rightharpoonup> nat) \<Rightarrow> SimNode list \<Rightarrow> GraphEdge list \<Rightarrow> draw_cmd list" where
  "draw_edges nm ns es = concat (map (draw_edge nm ns) es)"

definition tooltipW :: real where "tooltipW = 180"
definition tooltipH :: real where "tooltipH = 60"

text \<open>The corner \<open>(tx, ty)\<close> of the tooltip panel of the hovered node.\<close>

definition tooltip_anchor :: "real \<Rightarrow> SimNode \<Rightarrow> real \<times> real" where
  "tooltip_anchor W n =
     (let tx = x n + 15;
          ty = y n - tooltipH - 5;
          tx' = (if W < tx + tooltipW then x n - tooltipW - 15 else tx);
          ty' = (if ty < 0 then y n + 20 else ty)
      in (tx', ty'))"

definition draw_tooltip :: "real \<Rightarrow> SimNode list \<Rightarrow> nat option \<Rightarrow> draw_cmd list" where
  "draw_tooltip W ns hovered =
     (case hovered of
        None \<Rightarrow> []
      | Some i \<Rightarrow>
          (let n = ns ! i;
               (tx, ty) = tooltip_anchor W n
           in [RoundRect tx ty tooltipW tooltipH,
               FillText (GraphNode.label n) (tx + 10) (ty + 18),
               FillText (''Type: '' @ type n @ '' | '' @ (if country n = [] then ''N/A'' else country n))
                 (tx + 10) (ty + 34),
               FillText (if risk n then ''High Risk'' else ''Normal'') (tx + 10) (ty + 50)]))"

subsection \<open>Hover detection\<close>

text \<open>The test of the loop in \<^verbatim>\<open>handleMouseMove\<close> for one node.\<close>

definition hit :: "real \<Rightarrow> real \<Rightarrow> SimNode \<Rightarrow> bool" where
  "hit mx my n =
     (let dx = mx - x n;
          dy = my - y n
      in sqrt (dx * dx + dy * dy) < radius n + 5)"

text \<open>The loop with its \<^verbatim>\<open>break\<close>: the index of the node found, \<open>None\<close> for \<^verbatim>\<open>null\<close>.\<close>

fun find_hit :: "real \<Rightarrow> real \<Rightarrow> SimNode list \<Rightarrow> nat option" where
  "find_hit mx my [] = None"
| "find_hit mx my (n # ns) = (if hit mx my n then Some 0 else map_option Suc (find_hit mx my ns))"

text \<open>
  \<open>(rect_left, rect_top)\<close> is the corner of the bounding rectangle of the canvas. \<^verbatim>\<open>mouseRef\<close>, which
  the handler writes and nothing reads, is left out.
\<close>

definition handleMouseMove :: "real \<Rightarrow> real \<Rightarrow> real \<Rightarrow> real \<Rightarrow> refs \<Rightarrow> refs" where
  "handleMouseMove clientX clientY rect_left rect_top st =
     (let mx = clientX - rect_left;
          my = clientY - rect_top;
          found = find_hit mx my (nodesRef st)
      in st\<lparr>hoveredRef := found,
            cursor := (if found \<noteq> None then ''pointer'' else ''default'')\<rparr>)"

subsection \<open>One frame\<close>

text \<open>
  \<^verbatim>\<open>draw\<close>: the physics step on \<^verbatim>\<open>nodesRef.current\<close>, then the edges and the tooltip, then
  the request of the next frame. \<open>canvas\<close> is the size of the bounding rectangle, \<open>None\<close>
  when the canvas or its context is missing. The map from ids to nodes is built once,
  after the repulsion loop, and read again when the edges are drawn. The grid and the
  node circles, which no statement below is about, are not in the command list.
\<close>

definition draw ::
  "(real \<times> real) option \<Rightarrow> GraphData option \<Rightarrow> refs \<Rightarrow> (refs \<times> draw_cmd list) option" where
  "draw canvas graph st =
     (case (canvas, graph) of
        (Some (W, H), Some g) \<Rightarrow>
          do {
            ns1 \<leftarrow> repel_all (nodesRef st);
            ns2 \<leftarrow> spring_all (nodeMap ns1) (edges g) ns1;
            let ns3 = map (integrate W H) ns2
            in Some (st\<lparr>nodesRef := ns3, animRef := True\<rparr>,
                     draw_edges (nodeMap ns1) ns3 (edges g) @ draw_tooltip W ns3 (hoveredRef st))
          }
      | _ \<Rightarrow> Some (st, []))"

subsection \<open>Example values\<close>

definition ex_node :: "string \<Rightarrow> string \<Rightarrow> GraphNode" where
  "ex_node i t =
     \<lparr>id_node = i, label = i, type = t, risk = False, country = ''US'', metadata = Undefined\<rparr>"

definition ex_sim :: "string \<Rightarrow> real \<Rightarrow> real \<Rightarrow> real \<Rightarrow> SimNode" where
  "ex_sim i px py r = GraphNode.extend (ex_node i ''entity'') (SimNode.fields px py 0 0 r)"

definition ex_edge :: "string \<Rightarrow> string \<Rightarrow> string \<Rightarrow> GraphEdge" where
  "ex_edge s t l = \<lparr>source = s, target = t, GraphEdge.label = l, amount = None, tx_id = None\<rparr>"

definition ex_graph :: GraphData where
  "ex_graph = \<lparr>nodes = [ex_node ''a'' ''entity''], edges = [], alert_id = ''A1''\<rparr>"

definition ex_refs :: refs where
  "ex_refs =
     \<lparr>nodesRef = [(ex_sim ''a'' 20 30 12)\<lparr>vx := 7, vy := 9\<rparr>], hoveredRef = Some 0,
      animRef = True, cursor = ''pointer''\<rparr>"

definition ex_meta :: "string \<Rightarrow> jsval \<Rightarrow> GraphNode" where
  "ex_meta t m =
     \<lparr>id_node = ''a'', label = ''A'', type = t, risk = True, country = ''US'', metadata = m\<rparr>"

definition ex_overlap :: refs where
  "ex_overlap =
     \<lparr>nodesRef = [ex_sim ''a'' 100 100 12, ex_sim ''b'' 113 100 12], hoveredRef = None,
      animRef = True, cursor = ''default''\<rparr>"

subsection \<open>Auxiliary notions\<close>

text \<open>What the physics step leaves alone in a node.\<close>

definition static :: "SimNode \<Rightarrow> string \<times> real \<times> real \<times> real" where
  "static n = (id_node n, x n, y n, radius n)"

text \<open>The force of one pair of the repulsion loop, its divisions carried out.\<close>

definition pair_force :: "SimNode \<Rightarrow> SimNode \<Rightarrow> real \<times> real" where
  "pair_force a b =
     (let dx = x b - x a;
          dy = y b - y a;
          dist = max (sqrt (dx * dx + dy * dy)) 1;
          force = repulsion / (dist * dist)
      in (dx / dist * force, dy / dist * force))"

text \<open>The force of one edge of the spring loop, its divisions carried out.\<close>

definition spring_force :: "SimNode \<Rightarrow> SimNode \<Rightarrow> real \<times> real" where
  "spring_force s t =
     (let dx = x t - x s;
          dy = y t - y s;
          dist = max (sqrt (dx * dx + dy * dy)) 1;
          force = k_spring * (dist - 120)
      in (dx / dist * force, dy / dist * force))"

text \<open>The distance of two nodes, before it is floored.\<close>

definition node_dist :: "SimNode \<Rightarrow> SimNode \<Rightarrow> real" where
  "node_dist a b = sqrt ((x b - x a) * (x b - x a) + (y b - y a) * (y b - y a))"

text \<open>Both ends of the edge are ids of nodes in the list.\<close>

definition resolved :: "SimNode list \<Rightarrow> GraphEdge \<Rightarrow> bool" where
  "resolved ns e \<longleftrightarrow> source e \<in> id_node ` set ns \<and> target e \<in> id_node ` set ns"

text \<open>What follows the digits does not continue the literal.\<close>

definition ends_literal :: "string \<Rightarrow> bool" where
  "ends_literal rest \<longleftrightarrow>
     (case rest of
        [] \<Rightarrow> True
      | c # r \<Rightarrow> \<not> isDigit c \<and> c \<noteq> CHR ''.'' \<and> c \<noteq> CHR ''e'' \<and> c \<noteq> CHR ''E'')"

section \<open>Properties\<close>

lemma ex_sim_sel:
  "x (ex_sim i px py r) = px"
  "y (ex_sim i px py r) = py"
  "vx (ex_sim i px py r) = 0"
  "vy (ex_sim i px py r) = 0"
  "radius (ex_sim i px py r) = r"
  "id_node (ex_sim i px py r) = i"
  by (simp_all add: ex_sim_def ex_node_def GraphNode.extend_def SimNode.fields_def)

subsection \<open>Radius of a simulation node\<close>

lemma length_init_nodes: "length (init_nodes W H rnd i ns) = length ns"
  by (induction ns arbitrary: i) auto

lemma nth_init_nodes:
  "j < length ns \<Longrightarrow>
   init_nodes W H rnd i ns ! j = init_node W H (ns ! j) (rnd (2 * (i + j))) (rnd (2 * (i + j) + 1))"
proof (induction ns arbitrary: i j)
  case Nil
  then show ?case by simp
next
  case (Cons n ns)
  show ?case
  proof (cases j)
    case 0
    then show ?thesis by simp
  next
    case (Suc j')
    with Cons.prems have "j' < length ns" by simp
    from Cons.IH [OF this, of "Suc i"] Suc show ?thesis by simp
  qed
qed

lemma init_node_sel:
  "x (init_node W H n rx ry) = W / 2 + (rx - 0.5) * 200"
  "y (init_node W H n rx ry) = H / 2 + (ry - 0.5) * 200"
  "vx (init_node W H n rx ry) = 0"
  "vy (init_node W H n rx ry) = 0"
  "radius (init_node W H n rx ry) = init_radius n"
  "id_node (init_node W H n rx ry) = id_node n"
  by (simp_all add: init_node_def GraphNode.extend_def SimNode.fields_def)

text \<open>
  C10. The radius of a simulation node is decided by the type first: an account has radius 8
  also when \<^verbatim>\<open>metadata.is_primary\<close> is true. A node that is not an account has radius 16
  when its metadata is an object whose property \<^verbatim>\<open>is_primary\<close> is \<^verbatim>\<open>true\<close> (or another truthy
  value: a number other than 0, a string that is not empty, an object), and radius 12 in
  every other case: the property is \<^verbatim>\<open>false\<close>, \<^verbatim>\<open>null\<close>, 0 or the empty string, the object
  has no such property whatever its other properties are, or the metadata is missing
  or not an object. The risk flag has no influence, and the nodes of \<^verbatim>\<open>nodesRef\<close> have the
  radius of their graph node.
\<close>

theorem radius_precedence:
  "(type n = ''account'' \<longrightarrow> radius (init_node W H n rx ry) = 8)
   \<and> (type n \<noteq> ''account'' \<longrightarrow>
        radius (init_node W H n rx ry) =
          (case metadata n of
             Obj kvs \<Rightarrow>
               (case map_of kvs ''is_primary'' of
                  None \<Rightarrow> 12
                | Some Undefined \<Rightarrow> 12
                | Some Null \<Rightarrow> 12
                | Some (Bool b) \<Rightarrow> if b then 16 else 12
                | Some (Num r) \<Rightarrow> if r = 0 then 12 else 16
                | Some (Str s) \<Rightarrow> if s = [] then 12 else 16
                | Some (Obj inner) \<Rightarrow> 16)
           | _ \<Rightarrow> 12))
   \<and> radius (init_node W H (n\<lparr>type := ''account'', metadata := Obj [(''is_primary'', Bool True)]\<rparr>) rx ry) = 8
   \<and> radius (init_node W H (n\<lparr>type := ''entity'', metadata := Obj [(''is_primary'', Bool True)]\<rparr>) rx ry) = 16
   \<and> radius (init_node W H (n\<lparr>type := ''entity'', metadata := Obj [(''is_primary'', Bool False)]\<rparr>) rx ry) = 12
   \<and> radius (init_node W H (n\<lparr>type := ''entity'', metadata := Obj [(''other'', Bool True)]\<rparr>) rx ry) = 12
   \<and> radius (init_node W H (n\<lparr>type := ''entity'',
         metadata := Obj [(''other'', Bool False), (''is_primary'', Bool True)]\<rparr>) rx ry) = 16
   \<and> radius (init_node W H (n\<lparr>type := ''entity'', metadata := Obj []\<rparr>) rx ry) = 12
   \<and> radius (init_node W H (n\<lparr>type := ''entity'', metadata := Obj [(''is_primary'', Num 1)]\<rparr>) rx ry) = 16
   \<and> radius (init_node W H (n\<lparr>type := ''entity'', metadata := Obj [(''is_primary'', Num 0)]\<rparr>) rx ry) = 12
   \<and> radius (init_node W H (n\<lparr>type := ''entity'', metadata := Obj [(''is_primary'', Null)]\<rparr>) rx ry) = 12
   \<and> radius (init_node W H (n\<lparr>type := ''entity'', metadata := Undefined\<rparr>) rx ry) = 12
   \<and> radius (init_node W H (n\<lparr>type := ''entity'', metadata := Null\<rparr>) rx ry) = 12
   \<and> radius (init_node W H (n\<lparr>type := ''entity'', metadata := Bool True\<rparr>) rx ry) = 12
   \<and> radius (init_node W H (n\<lparr>risk := b'\<rparr>) rx ry) = radius (init_node W H n rx ry)
   \<and> (j < length ns \<longrightarrow>
        radius (init_nodes W H rnd i ns ! j) = radius (init_node W H (ns ! j) rx ry))"
proof -
  have acc: "radius (init_node W H n rx ry) = 8" if "type n = ''account''"
    using that by (simp add: init_node_sel init_radius_def)
  have other: "radius (init_node W H n rx ry) =
          (case metadata n of
             Obj kvs \<Rightarrow>
               (case map_of kvs ''is_primary'' of
                  None \<Rightarrow> 12
                | Some Undefined \<Rightarrow> 12
                | Some Null \<Rightarrow> 12
                | Some (Bool b) \<Rightarrow> if b then 16 else 12
                | Some (Num r) \<Rightarrow> if r = 0 then 12 else 16
                | Some (Str s) \<Rightarrow> if s = [] then 12 else 16
                | Some (Obj inner) \<Rightarrow> 16)
           | _ \<Rightarrow> 12)" if "type n \<noteq> ''account''"
    using that
    by (simp add: init_node_sel init_radius_def split: jsval.splits option.splits)
  have nth: "radius (init_nodes W H rnd i ns ! j) = radius (init_node W H (ns ! j) rx ry)"
    if "j < length ns"
    using that by (simp add: nth_init_nodes init_node_sel)
  show ?thesis
    using acc other nth by (simp add: init_node_sel init_radius_def)
qed

theorem radius_precedence_witness:
  "type (ex_meta ''account'' (Obj [(''is_primary'', Bool True)])) = ''account''
   \<and> radius (init_node 800 600 (ex_meta ''account'' (Obj [(''is_primary'', Bool True)])) (1 / 4) (3 / 4)) = 8
   \<and> type (ex_meta ''entity'' (Obj [(''is_primary'', Bool False)])) \<noteq> ''account''
   \<and> radius (init_node 800 600 (ex_meta ''entity'' (Obj [(''is_primary'', Bool False)])) (1 / 4) (3 / 4)) = 12
   \<and> (0::nat) < length [ex_meta ''entity'' (Obj [(''is_primary'', Bool True)])]
   \<and> radius (init_nodes 800 600 (\<lambda>k. 1 / 4) 0 [ex_meta ''entity'' (Obj [(''is_primary'', Bool True)])] ! 0) = 16"
  using radius_precedence [where n = "ex_meta ''account'' (Obj [(''is_primary'', Bool True)])"
          and W = 800 and H = 600 and rx = "1 / 4" and ry = "3 / 4"]
        radius_precedence [where n = "ex_meta ''entity'' (Obj [(''is_primary'', Bool False)])"
          and W = 800 and H = 600 and rx = "1 / 4" and ry = "3 / 4"]
        radius_precedence [where n = "ex_meta ''entity'' (Obj [(''is_primary'', Bool True)])"
          and W = 800 and H = 600 and rx = "1 / 4" and ry = "3 / 4" and j = 0
          and ns = "[ex_meta ''entity'' (Obj [(''is_primary'', Bool True)])]"
          and rnd = "\<lambda>k. 1 / 4" and i = 0]
  by (simp add: ex_meta_def)

subsection \<open>Re-initialisation\<close>

text \<open>
  C9. When the effect runs for a graph with at least one node (the canvas being mounted,
  as it is whenever the graph is not null), \<^verbatim>\<open>nodesRef\<close> is rebuilt from the graph's nodes
  alone: it is the same whatever the references held before, every velocity is \<open>(0, 0)\<close>,
  every position is within 100 of the centre of the canvas in each axis, and the hover
  reference is cleared.
\<close>

theorem reinit_resets:
  assumes ne: "nodes g \<noteq> []" and rnd: "\<forall>k. 0 \<le> rnd k \<and> rnd k < 1"
  shows "nodesRef (init_effect (Some g) (Some (w, h)) rnd st) =
           init_nodes (if w = 0 then 600 else w) (if h = 0 then 400 else h) rnd 0 (nodes g)
       \<and> nodesRef (init_effect (Some g) (Some (w, h)) rnd st) =
           nodesRef (init_effect (Some g) (Some (w, h)) rnd st0)
       \<and> hoveredRef (init_effect (Some g) (Some (w, h)) rnd st) = None
       \<and> length (nodesRef (init_effect (Some g) (Some (w, h)) rnd st)) = length (nodes g)
       \<and> (\<forall>j < length (nodes g).
            let n = nodesRef (init_effect (Some g) (Some (w, h)) rnd st) ! j
            in id_node n = id_node (nodes g ! j)
             \<and> vx n = 0 \<and> vy n = 0
             \<and> \<bar>x n - (if w = 0 then 600 else w) / 2\<bar> \<le> 100
             \<and> \<bar>y n - (if h = 0 then 400 else h) / 2\<bar> \<le> 100)"
proof -
  let ?W = "if w = 0 then 600 else w" and ?H = "if h = 0 then 400 else h"
  have eq: "\<And>s. nodesRef (init_effect (Some g) (Some (w, h)) rnd s) = init_nodes ?W ?H rnd 0 (nodes g)"
    using ne by (simp add: init_effect_def Let_def)
  have hov: "hoveredRef (init_effect (Some g) (Some (w, h)) rnd st) = None"
    using ne by (simp add: init_effect_def Let_def)
  have jit: "\<bar>(r - 0.5) * 200\<bar> \<le> 100" if "0 \<le> r" "r < 1" for r :: real
    using that by (simp add: abs_le_iff)
  have each: "id_node (init_nodes ?W ?H rnd 0 (nodes g) ! j) = id_node (nodes g ! j)
      \<and> vx (init_nodes ?W ?H rnd 0 (nodes g) ! j) = 0
      \<and> vy (init_nodes ?W ?H rnd 0 (nodes g) ! j) = 0
      \<and> \<bar>x (init_nodes ?W ?H rnd 0 (nodes g) ! j) - ?W / 2\<bar> \<le> 100
      \<and> \<bar>y (init_nodes ?W ?H rnd 0 (nodes g) ! j) - ?H / 2\<bar> \<le> 100"
    if "j < length (nodes g)" for j
    using that rnd jit [of "rnd (2 * j)"] jit [of "rnd (2 * j + 1)"]
    by (simp add: nth_init_nodes init_node_sel)
  show ?thesis
    unfolding eq Let_def using hov each by (simp add: length_init_nodes eq)
qed

theorem reinit_resets_witness:
  "nodes ex_graph \<noteq> []
   \<and> (\<forall>k. (0::real) \<le> (\<lambda>k. 1 / 4) k \<and> (\<lambda>k. 1 / 4 :: real) k < 1)
   \<and> x (nodesRef ex_refs ! 0) = 20
   \<and> vx (nodesRef ex_refs ! 0) = 7
   \<and> x (nodesRef (init_effect (Some ex_graph) (Some (800, 600)) (\<lambda>k. 1 / 4) ex_refs) ! 0) = 350
   \<and> vx (nodesRef (init_effect (Some ex_graph) (Some (800, 600)) (\<lambda>k. 1 / 4) ex_refs) ! 0) = 0"
  using reinit_resets [of ex_graph "\<lambda>k. 1 / 4" 800 600 ex_refs]
  by (simp add: init_node_sel ex_graph_def ex_refs_def ex_sim_sel)

subsection \<open>The physics step returns and changes velocities only\<close>

lemma js_div_Some: "b \<noteq> 0 \<Longrightarrow> js_div a b = Some (a / b)"
  by (simp add: js_div_def)

lemma floor_ge_1: "1 \<le> max (sqrt d) 1"
  by simp

lemma js_div_floor: "js_div a (max (sqrt d) 1) = Some (a / max (sqrt d) 1)"
proof -
  have "max (sqrt d) 1 \<noteq> 0" using floor_ge_1 [of d] by linarith
  then show ?thesis by (rule js_div_Some)
qed

lemma js_div_floor_sq:
  "js_div a (max (sqrt d) 1 * max (sqrt d) 1) = Some (a / (max (sqrt d) 1 * max (sqrt d) 1))"
proof -
  have "max (sqrt d) 1 \<noteq> 0" using floor_ge_1 [of d] by linarith
  then have "max (sqrt d) 1 * max (sqrt d) 1 \<noteq> 0" by simp
  then show ?thesis by (rule js_div_Some)
qed

lemma repel_pair_Some:
  "repel_pair i j ns =
     Some ((ns[i := (ns ! i)\<lparr>vx := vx (ns ! i) - fst (pair_force (ns ! i) (ns ! j)),
                             vy := vy (ns ! i) - snd (pair_force (ns ! i) (ns ! j))\<rparr>])
            [j := ((ns[i := (ns ! i)\<lparr>vx := vx (ns ! i) - fst (pair_force (ns ! i) (ns ! j)),
                                     vy := vy (ns ! i) - snd (pair_force (ns ! i) (ns ! j))\<rparr>]) ! j)
                   \<lparr>vx := vx ((ns[i := (ns ! i)\<lparr>vx := vx (ns ! i) - fst (pair_force (ns ! i) (ns ! j)),
                                     vy := vy (ns ! i) - snd (pair_force (ns ! i) (ns ! j))\<rparr>]) ! j)
                           + fst (pair_force (ns ! i) (ns ! j)),
                     vy := vy ((ns[i := (ns ! i)\<lparr>vx := vx (ns ! i) - fst (pair_force (ns ! i) (ns ! j)),
                                     vy := vy (ns ! i) - snd (pair_force (ns ! i) (ns ! j))\<rparr>]) ! j)
                           + snd (pair_force (ns ! i) (ns ! j))\<rparr>])"
  by (simp add: repel_pair_def pair_force_def Let_def js_div_floor js_div_floor_sq)

lemma static_upd [simp]: "static (n\<lparr>vx := a, vy := b\<rparr>) = static n"
  by (simp add: static_def)

lemma map_static_upd:
  assumes "static v = static (ns ! i)"
  shows "map static (ns[i := v]) = map static ns"
proof (cases "i < length ns")
  case True
  with assms show ?thesis by (simp add: map_update list_update_same_conv)
next
  case False
  then show ?thesis by (simp add: list_update_beyond)
qed

lemma repel_pair_static: "repel_pair i j ns = Some ns' \<Longrightarrow> map static ns' = map static ns"
  unfolding repel_pair_Some
  by (auto simp: map_static_upd)

lemma repel_pair_total: "\<exists>ns'. repel_pair i j ns = Some ns'"
  unfolding repel_pair_Some by blast

lemma repel_inner_static:
  "repel_inner i js ns = Some ns' \<Longrightarrow> map static ns' = map static ns"
proof (induction js arbitrary: ns)
  case Nil
  then show ?case by simp
next
  case (Cons j js)
  from repel_pair_total obtain ns1 where p: "repel_pair i j ns = Some ns1" by blast
  with Cons.prems have "repel_inner i js ns1 = Some ns'" by simp
  from Cons.IH [OF this] repel_pair_static [OF p] show ?case by simp
qed

lemma repel_inner_total: "\<exists>ns'. repel_inner i js ns = Some ns'"
proof (induction js arbitrary: ns)
  case Nil
  show ?case by simp
next
  case (Cons j js)
  from repel_pair_total obtain ns1 where p: "repel_pair i j ns = Some ns1" by blast
  with Cons.IH [of ns1] show ?case by simp
qed

lemma repel_outer_static:
  "repel_outer is ns = Some ns' \<Longrightarrow> map static ns' = map static ns"
proof (induction "is" arbitrary: ns)
  case Nil
  then show ?case by simp
next
  case (Cons i "is")
  from repel_inner_total obtain ns1
    where p: "repel_inner i [i + 1 ..< length ns] ns = Some ns1" by blast
  with Cons.prems have "repel_outer is ns1 = Some ns'" by simp
  from Cons.IH [OF this] repel_inner_static [OF p] show ?case by simp
qed

lemma repel_outer_total: "\<exists>ns'. repel_outer is ns = Some ns'"
proof (induction "is" arbitrary: ns)
  case Nil
  show ?case by simp
next
  case (Cons i "is")
  from repel_inner_total obtain ns1
    where p: "repel_inner i [i + 1 ..< length ns] ns = Some ns1" by blast
  with Cons.IH [of ns1] show ?case by simp
qed

lemma repel_all_total: "\<exists>ns'. repel_all ns = Some ns'"
  unfolding repel_all_def by (rule repel_outer_total)

lemma repel_all_static: "repel_all ns = Some ns' \<Longrightarrow> map static ns' = map static ns"
  unfolding repel_all_def by (rule repel_outer_static)

lemma spring_edge_resolved:
  "nm (source e) = Some si \<Longrightarrow> nm (target e) = Some ti \<Longrightarrow>
   spring_edge nm e ns =
     Some ((ns[si := (ns ! si)\<lparr>vx := vx (ns ! si) + fst (spring_force (ns ! si) (ns ! ti)),
                               vy := vy (ns ! si) + snd (spring_force (ns ! si) (ns ! ti))\<rparr>])
            [ti := ((ns[si := (ns ! si)\<lparr>vx := vx (ns ! si) + fst (spring_force (ns ! si) (ns ! ti)),
                                       vy := vy (ns ! si) + snd (spring_force (ns ! si) (ns ! ti))\<rparr>]) ! ti)
                   \<lparr>vx := vx ((ns[si := (ns ! si)\<lparr>vx := vx (ns ! si) + fst (spring_force (ns ! si) (ns ! ti)),
                                       vy := vy (ns ! si) + snd (spring_force (ns ! si) (ns ! ti))\<rparr>]) ! ti)
                           - fst (spring_force (ns ! si) (ns ! ti)),
                     vy := vy ((ns[si := (ns ! si)\<lparr>vx := vx (ns ! si) + fst (spring_force (ns ! si) (ns ! ti)),
                                       vy := vy (ns ! si) + snd (spring_force (ns ! si) (ns ! ti))\<rparr>]) ! ti)
                           - snd (spring_force (ns ! si) (ns ! ti))\<rparr>])"
  by (simp add: spring_edge_def spring_force_def Let_def js_div_floor)

lemma spring_edge_unresolved:
  "nm (source e) = None \<or> nm (target e) = None \<Longrightarrow> spring_edge nm e ns = Some ns"
  by (auto simp: spring_edge_def split: option.splits)

lemma spring_edge_total: "\<exists>ns'. spring_edge nm e ns = Some ns'"
proof (cases "nm (source e) = None \<or> nm (target e) = None")
  case True
  then show ?thesis by (simp add: spring_edge_unresolved)
next
  case False
  then obtain si ti where "nm (source e) = Some si" "nm (target e) = Some ti" by auto
  then show ?thesis by (simp add: spring_edge_resolved)
qed

lemma spring_edge_static: "spring_edge nm e ns = Some ns' \<Longrightarrow> map static ns' = map static ns"
proof (cases "nm (source e) = None \<or> nm (target e) = None")
  case True
  assume "spring_edge nm e ns = Some ns'"
  with True show ?thesis by (simp add: spring_edge_unresolved)
next
  case False
  assume a: "spring_edge nm e ns = Some ns'"
  from False obtain si ti where "nm (source e) = Some si" "nm (target e) = Some ti" by auto
  with a show ?thesis by (auto simp: spring_edge_resolved map_static_upd)
qed

lemma spring_all_total: "\<exists>ns'. spring_all nm es ns = Some ns'"
proof (induction es arbitrary: ns)
  case Nil
  show ?case by simp
next
  case (Cons e es)
  from spring_edge_total obtain ns1 where p: "spring_edge nm e ns = Some ns1" by blast
  with Cons.IH [of ns1] show ?case by simp
qed

lemma spring_all_static: "spring_all nm es ns = Some ns' \<Longrightarrow> map static ns' = map static ns"
proof (induction es arbitrary: ns)
  case Nil
  then show ?case by simp
next
  case (Cons e es)
  from spring_edge_total obtain ns1 where p: "spring_edge nm e ns = Some ns1" by blast
  with Cons.prems have "spring_all nm es ns1 = Some ns'" by simp
  from Cons.IH [OF this] spring_edge_static [OF p] show ?case by simp
qed

lemma simulate_total: "\<exists>ns'. simulate W H es ns = Some ns'"
proof -
  from repel_all_total obtain ns1 where a: "repel_all ns = Some ns1" by blast
  from spring_all_total obtain ns2 where b: "spring_all (nodeMap ns1) es ns1 = Some ns2" by blast
  from a b show ?thesis by (simp add: simulate_def)
qed

lemma integrate_radius [simp]: "radius (integrate W H n) = radius n"
  by (simp add: integrate_def Let_def)

lemma integrate_bounds:
  assumes "2 * radius n \<le> W" and "2 * radius n \<le> H"
  shows "radius n \<le> x (integrate W H n) \<and> x (integrate W H n) \<le> W - radius n
       \<and> radius n \<le> y (integrate W H n) \<and> y (integrate W H n) \<le> H - radius n"
  using assms by (simp add: integrate_def Let_def)

lemma static_radius: "map static ns' = map static ns \<Longrightarrow> map radius ns' = map radius ns"
proof -
  assume a: "map static ns' = map static ns"
  have "map radius zs = map (\<lambda>p. snd (snd (snd p))) (map static zs)" for zs
    by (simp add: static_def)
  with a show ?thesis by metis
qed

lemma simulate_radius:
  assumes "simulate W H es ns = Some ns'"
  shows "map radius ns' = map radius ns"
proof -
  from repel_all_total obtain ns1 where a: "repel_all ns = Some ns1" by blast
  from spring_all_total obtain ns2 where b: "spring_all (nodeMap ns1) es ns1 = Some ns2" by blast
  from a b assms have c: "ns' = map (integrate W H) ns2" by (simp add: simulate_def)
  have "map radius ns2 = map radius ns"
    using static_radius [OF spring_all_static [OF b]] static_radius [OF repel_all_static [OF a]]
    by simp
  with c show ?thesis by (simp add: comp_def)
qed

lemma simulate_bounds:
  assumes sim: "simulate W H es ns = Some ns'"
    and fit: "\<forall>n \<in> set ns. 2 * radius n \<le> W \<and> 2 * radius n \<le> H"
  shows "\<forall>n \<in> set ns'. radius n \<le> x n \<and> x n \<le> W - radius n
                      \<and> radius n \<le> y n \<and> y n \<le> H - radius n"
proof -
  from repel_all_total obtain ns1 where a: "repel_all ns = Some ns1" by blast
  from spring_all_total obtain ns2 where b: "spring_all (nodeMap ns1) es ns1 = Some ns2" by blast
  from a b sim have c: "ns' = map (integrate W H) ns2" by (simp add: simulate_def)
  have "map radius ns2 = map radius ns"
    using static_radius [OF spring_all_static [OF b]] static_radius [OF repel_all_static [OF a]]
    by simp
  then have "radius ` set ns2 = radius ` set ns" by (metis set_map)
  with fit have fit2: "\<forall>n \<in> set ns2. 2 * radius n \<le> W \<and> 2 * radius n \<le> H"
    by (metis (no_types, lifting) imageE imageI)
  show ?thesis
    unfolding c using fit2 integrate_bounds by auto
qed

subsection \<open>Positions stay within the canvas\<close>

lemma run_total: "\<exists>ns'. run N W H es ns = Some ns'"
proof (induction N arbitrary: ns)
  case 0
  show ?case by simp
next
  case (Suc N)
  from simulate_total obtain ns1 where "simulate W H es ns = Some ns1" by blast
  with Suc.IH [of ns1] show ?case by simp
qed

lemma run_radius: "run N W H es ns = Some ns' \<Longrightarrow> map radius ns' = map radius ns"
proof (induction N arbitrary: ns)
  case 0
  then show ?case by simp
next
  case (Suc N)
  from simulate_total obtain ns1 where s: "simulate W H es ns = Some ns1" by blast
  with Suc.prems have "run N W H es ns1 = Some ns'" by simp
  from Suc.IH [OF this] simulate_radius [OF s] show ?case by simp
qed

lemma run_Suc_last:
  "run (Suc N) W H es ns = do { ns' \<leftarrow> run N W H es ns; simulate W H es ns' }"
proof (induction N arbitrary: ns)
  case 0
  from simulate_total obtain ns1 where s: "simulate W H es ns = Some ns1" by blast
  then show ?case by simp
next
  case (Suc N)
  from simulate_total obtain ns1 where s: "simulate W H es ns = Some ns1" by blast
  have "run (Suc (Suc N)) W H es ns = run (Suc N) W H es ns1" using s by simp
  also have "\<dots> = do { ns' \<leftarrow> run N W H es ns1; simulate W H es ns' }" by (rule Suc.IH)
  also have "\<dots> = do { ns' \<leftarrow> run (Suc N) W H es ns; simulate W H es ns' }" using s by simp
  finally show ?case .
qed

lemma run_bounds:
  assumes r: "run (Suc N) W H es ns = Some ns'"
    and fit: "\<forall>n \<in> set ns. 2 * radius n \<le> W \<and> 2 * radius n \<le> H"
  shows "\<forall>n \<in> set ns'. radius n \<le> x n \<and> x n \<le> W - radius n
                      \<and> radius n \<le> y n \<and> y n \<le> H - radius n"
proof -
  from run_total obtain ns1 where a: "run N W H es ns = Some ns1" by blast
  with r have s: "simulate W H es ns1 = Some ns'" by (simp add: run_Suc_last del: run.simps)
  have "map radius ns1 = map radius ns" using a by (rule run_radius)
  then have "radius ` set ns1 = radius ` set ns" by (metis set_map)
  with fit have "\<forall>n \<in> set ns1. 2 * radius n \<le> W \<and> 2 * radius n \<le> H"
    by (metis (no_types, lifting) imageE imageI)
  with s show ?thesis by (rule simulate_bounds)
qed

text \<open>
  C2. If every node fits the canvas (\<open>2 * radius \<le> W\<close> and \<open>2 * radius \<le> H\<close>), a
  simulation step returns, and afterwards every node lies in
  \<open>[radius, W - radius] \<times> [radius, H - radius]\<close>; so it is after any number of steps,
  on a graph without edges as on any other, from any initial positions and velocities.
\<close>

theorem positions_stay_in_canvas:
  assumes fit: "\<forall>n \<in> set ns. 2 * radius n \<le> W \<and> 2 * radius n \<le> H"
  shows "(\<exists>ns'. simulate W H es ns = Some ns'
            \<and> map radius ns' = map radius ns
            \<and> (\<forall>n \<in> set ns'. radius n \<le> x n \<and> x n \<le> W - radius n
                             \<and> radius n \<le> y n \<and> y n \<le> H - radius n))
       \<and> (\<exists>ns'. run (Suc N) W H es ns = Some ns'
            \<and> map radius ns' = map radius ns
            \<and> (\<forall>n \<in> set ns'. radius n \<le> x n \<and> x n \<le> W - radius n
                             \<and> radius n \<le> y n \<and> y n \<le> H - radius n))"
proof
  from simulate_total obtain ns1 where s: "simulate W H es ns = Some ns1" by blast
  from s simulate_radius [OF s] simulate_bounds [OF s fit]
  show "\<exists>ns'. simulate W H es ns = Some ns'
            \<and> map radius ns' = map radius ns
            \<and> (\<forall>n \<in> set ns'. radius n \<le> x n \<and> x n \<le> W - radius n
                             \<and> radius n \<le> y n \<and> y n \<le> H - radius n)"
    by blast
next
  from run_total obtain ns1 where r: "run (Suc N) W H es ns = Some ns1" by blast
  from r run_radius [OF r] run_bounds [OF r fit]
  show "\<exists>ns'. run (Suc N) W H es ns = Some ns'
            \<and> map radius ns' = map radius ns
            \<and> (\<forall>n \<in> set ns'. radius n \<le> x n \<and> x n \<le> W - radius n
                             \<and> radius n \<le> y n \<and> y n \<le> H - radius n)"
    by blast
qed

theorem positions_stay_in_canvas_witness:
  "(2 * radius (ex_sim ''a'' 100 100 12) \<le> (800::real) \<and> 2 * radius (ex_sim ''a'' 100 100 12) \<le> (600::real)
    \<and> 2 * radius (ex_sim ''b'' 103 104 8) \<le> (800::real) \<and> 2 * radius (ex_sim ''b'' 103 104 8) \<le> (600::real))
   \<and> (\<exists>ns'. run (Suc 999) 800 600 [] [ex_sim ''a'' 100 100 12, ex_sim ''b'' 103 104 8] = Some ns'
         \<and> 12 \<le> x (ns' ! 0) \<and> x (ns' ! 0) \<le> 788 \<and> 12 \<le> y (ns' ! 0) \<and> y (ns' ! 0) \<le> 588
         \<and> 8 \<le> x (ns' ! 1) \<and> x (ns' ! 1) \<le> 792 \<and> 8 \<le> y (ns' ! 1) \<and> y (ns' ! 1) \<le> 592)"
proof -
  let ?ns = "[ex_sim ''a'' 100 100 12, ex_sim ''b'' 103 104 8]"
  have fit: "\<forall>n \<in> set ?ns. 2 * radius n \<le> 800 \<and> 2 * radius n \<le> 600"
    by (simp add: ex_sim_sel)
  from positions_stay_in_canvas [OF fit, of "[]" 999] obtain ns'
    where r: "run (Suc 999) 800 600 [] ?ns = Some ns'"
      and rad: "map radius ns' = map radius ?ns"
      and b: "\<forall>n \<in> set ns'. radius n \<le> x n \<and> x n \<le> 800 - radius n
                             \<and> radius n \<le> y n \<and> y n \<le> 600 - radius n"
    by blast
  from rad have "map radius ns' = [12, 8]" by (simp add: ex_sim_sel)
  then obtain a' b' where ns': "ns' = [a', b']" and ra: "radius a' = 12" and rb: "radius b' = 8"
    by (auto simp: map_eq_Cons_conv)
  from b ns' ra rb have
    "12 \<le> x (ns' ! 0) \<and> x (ns' ! 0) \<le> 788 \<and> 12 \<le> y (ns' ! 0) \<and> y (ns' ! 0) \<le> 588
     \<and> 8 \<le> x (ns' ! 1) \<and> x (ns' ! 1) \<le> 792 \<and> 8 \<le> y (ns' ! 1) \<and> y (ns' ! 1) \<le> 592"
    by simp
  with r have c: "\<exists>ns'. run (Suc 999) 800 600 [] ?ns = Some ns'
         \<and> 12 \<le> x (ns' ! 0) \<and> x (ns' ! 0) \<le> 788 \<and> 12 \<le> y (ns' ! 0) \<and> y (ns' ! 0) \<le> 588
         \<and> 8 \<le> x (ns' ! 1) \<and> x (ns' ! 1) \<le> 792 \<and> 8 \<le> y (ns' ! 1) \<and> y (ns' ! 1) \<le> 592"
    by blast
  have h: "2 * radius (ex_sim ''a'' 100 100 12) \<le> (800::real) \<and> 2 * radius (ex_sim ''a'' 100 100 12) \<le> (600::real)
    \<and> 2 * radius (ex_sim ''b'' 103 104 8) \<le> (800::real) \<and> 2 * radius (ex_sim ''b'' 103 104 8) \<le> (600::real)"
    by (simp add: ex_sim_sel)
  from h c show ?thesis by (rule conjI)
qed

subsection \<open>No division by zero\<close>

lemma pair_force_coincident:
  "x a = x b \<Longrightarrow> y a = y b \<Longrightarrow> pair_force a b = (0, 0)"
  by (simp add: pair_force_def)

lemma spring_force_coincident:
  "x a = x b \<Longrightarrow> y a = y b \<Longrightarrow> spring_force a b = (0, 0)"
  by (simp add: spring_force_def)

lemma repel_pair_coincident:
  assumes "x (ns ! i) = x (ns ! j)" and "y (ns ! i) = y (ns ! j)"
  shows "repel_pair i j ns = Some ns"
  unfolding repel_pair_Some using assms by (simp add: pair_force_coincident)

lemma spring_edge_coincident:
  assumes "nm (source e) = Some si" and "nm (target e) = Some ti"
    and "x (ns ! si) = x (ns ! ti)" and "y (ns ! si) = y (ns ! ti)"
  shows "spring_edge nm e ns = Some ns"
  using assms by (simp add: spring_edge_resolved spring_force_coincident)

text \<open>
  C4. No step divides by zero: every divisor of the repulsion and of the spring loop is a
  distance floored at 1, so each division gives a finite number and the step returns, for
  any nodes and edges and for any number of steps. For two nodes at the same coordinates
  the floored distance is 1 and the pair, or the edge between them, changes no velocity.
\<close>

theorem no_division_by_zero:
  "1 \<le> max (sqrt d) 1
   \<and> js_div a (max (sqrt d) 1) = Some (a / max (sqrt d) 1)
   \<and> js_div a (max (sqrt d) 1 * max (sqrt d) 1) = Some (a / (max (sqrt d) 1 * max (sqrt d) 1))
   \<and> (\<exists>ns'. repel_pair i j ns = Some ns')
   \<and> (\<exists>ns'. spring_edge nm e ns = Some ns')
   \<and> (\<exists>ns'. simulate W H es ns = Some ns')
   \<and> (\<exists>ns'. run N W H es ns = Some ns')
   \<and> (x (ns ! i) = x (ns ! j) \<and> y (ns ! i) = y (ns ! j) \<longrightarrow> repel_pair i j ns = Some ns)
   \<and> (nm (source e) = Some i \<and> nm (target e) = Some j
        \<and> x (ns ! i) = x (ns ! j) \<and> y (ns ! i) = y (ns ! j) \<longrightarrow> spring_edge nm e ns = Some ns)"
  using js_div_floor [of a d] js_div_floor_sq [of a d] repel_pair_total [of i j ns]
    spring_edge_total [of nm e ns] simulate_total [of W H es ns] run_total [of N W H es ns]
    repel_pair_coincident [of ns i j] spring_edge_coincident [of nm e i j ns]
  by simp

theorem no_division_by_zero_witness:
  "x ([ex_sim ''a'' 100 100 12, ex_sim ''b'' 100 100 12] ! 0) = x ([ex_sim ''a'' 100 100 12, ex_sim ''b'' 100 100 12] ! 1)
   \<and> y ([ex_sim ''a'' 100 100 12, ex_sim ''b'' 100 100 12] ! 0) = y ([ex_sim ''a'' 100 100 12, ex_sim ''b'' 100 100 12] ! 1)
   \<and> repel_pair 0 1 [ex_sim ''a'' 100 100 12, ex_sim ''b'' 100 100 12]
       = Some [ex_sim ''a'' 100 100 12, ex_sim ''b'' 100 100 12]
   \<and> nodeMap [ex_sim ''a'' 100 100 12, ex_sim ''b'' 100 100 12] (source (ex_edge ''a'' ''b'' ''$1'')) = Some 0
   \<and> nodeMap [ex_sim ''a'' 100 100 12, ex_sim ''b'' 100 100 12] (target (ex_edge ''a'' ''b'' ''$1'')) = Some 1
   \<and> spring_edge (nodeMap [ex_sim ''a'' 100 100 12, ex_sim ''b'' 100 100 12]) (ex_edge ''a'' ''b'' ''$1'')
        [ex_sim ''a'' 100 100 12, ex_sim ''b'' 100 100 12]
       = Some [ex_sim ''a'' 100 100 12, ex_sim ''b'' 100 100 12]
   \<and> (\<exists>ns'. simulate 800 600 [ex_edge ''a'' ''b'' ''$1''] [ex_sim ''a'' 100 100 12, ex_sim ''b'' 100 100 12] = Some ns')"
  using no_division_by_zero [of 0 0 0 1 "[ex_sim ''a'' 100 100 12, ex_sim ''b'' 100 100 12]"
      "nodeMap [ex_sim ''a'' 100 100 12, ex_sim ''b'' 100 100 12]" "ex_edge ''a'' ''b'' ''$1''"
      800 600 "[ex_edge ''a'' ''b'' ''$1'']" 0]
  by (simp add: ex_sim_sel nodeMap_def ex_edge_def upt_rec)

subsection \<open>Repulsion of a pair\<close>

lemma node_dist_nonneg: "0 \<le> node_dist a b"
  by (simp add: node_dist_def)

lemma node_dist_sq:
  "node_dist a b * node_dist a b = (x b - x a) * (x b - x a) + (y b - y a) * (y b - y a)"
  by (simp add: node_dist_def)

lemma pair_force_far:
  assumes "1 \<le> node_dist a b"
  shows "pair_force a b =
           ((x b - x a) / node_dist a b * (repulsion / (node_dist a b * node_dist a b)),
            (y b - y a) / node_dist a b * (repulsion / (node_dist a b * node_dist a b)))"
proof -
  have "max (node_dist a b) 1 = node_dist a b" using assms by simp
  then show ?thesis
    unfolding pair_force_def Let_def by (simp add: node_dist_def)
qed

lemma pair_force_near:
  assumes "node_dist a b < 1"
  shows "pair_force a b = ((x b - x a) * repulsion, (y b - y a) * repulsion)"
proof -
  have "max (node_dist a b) 1 = 1" using assms by simp
  then show ?thesis
    unfolding pair_force_def Let_def by (simp add: node_dist_def)
qed

lemma sqrt_sum_scaled:
  fixes c :: real
  assumes "0 \<le> c"
  shows "sqrt ((u * c) * (u * c) + (v * c) * (v * c)) = c * sqrt (u * u + v * v)"
proof -
  have "(u * c) * (u * c) + (v * c) * (v * c) = (c * c) * (u * u + v * v)"
    by (simp add: algebra_simps)
  then have "sqrt ((u * c) * (u * c) + (v * c) * (v * c)) = sqrt (c * c) * sqrt (u * u + v * v)"
    by (simp add: real_sqrt_mult)
  with assms show ?thesis by simp
qed

lemma pair_force_magnitude_far:
  assumes "1 \<le> node_dist a b"
  shows "sqrt (fst (pair_force a b) * fst (pair_force a b) + snd (pair_force a b) * snd (pair_force a b))
         = repulsion / (node_dist a b * node_dist a b)"
proof -
  let ?d = "node_dist a b"
  let ?c = "repulsion / (?d * ?d) / ?d"
  have dpos: "0 < ?d" using assms by linarith
  have cpos: "0 \<le> ?c" using dpos by (simp add: repulsion_def)
  have f: "pair_force a b = ((x b - x a) * ?c, (y b - y a) * ?c)"
    using pair_force_far [OF assms] by simp
  have "sqrt (fst (pair_force a b) * fst (pair_force a b) + snd (pair_force a b) * snd (pair_force a b))
        = ?c * sqrt ((x b - x a) * (x b - x a) + (y b - y a) * (y b - y a))"
    unfolding f fst_conv snd_conv using cpos by (rule sqrt_sum_scaled)
  also have "\<dots> = ?c * ?d" by (simp add: node_dist_def)
  also have "\<dots> = repulsion / (?d * ?d)" using dpos by simp
  finally show ?thesis .
qed

lemma pair_force_magnitude_near:
  assumes "node_dist a b < 1"
  shows "sqrt (fst (pair_force a b) * fst (pair_force a b) + snd (pair_force a b) * snd (pair_force a b))
         = repulsion * node_dist a b"
proof -
  have cpos: "0 \<le> repulsion" by (simp add: repulsion_def)
  have "sqrt (fst (pair_force a b) * fst (pair_force a b) + snd (pair_force a b) * snd (pair_force a b))
        = repulsion * sqrt ((x b - x a) * (x b - x a) + (y b - y a) * (y b - y a))"
    unfolding pair_force_near [OF assms] fst_conv snd_conv using cpos by (rule sqrt_sum_scaled)
  then show ?thesis by (simp add: node_dist_def)
qed

lemma pair_force_direction:
  "\<exists>c. 0 < c \<and> pair_force a b = (c * (x b - x a), c * (y b - y a))"
proof -
  let ?dist = "max (node_dist a b) 1"
  have pos: "0 < ?dist" by simp
  have "pair_force a b = (repulsion / (?dist * ?dist) / ?dist * (x b - x a),
                          repulsion / (?dist * ?dist) / ?dist * (y b - y a))"
    unfolding pair_force_def Let_def by (simp add: node_dist_def mult_ac)
  moreover have "0 < repulsion / (?dist * ?dist) / ?dist"
    using pos by (simp add: repulsion_def)
  ultimately show ?thesis by blast
qed

lemma repel_pair_nth:
  assumes "i \<noteq> j" and "i < length ns" and "j < length ns"
    and "repel_pair i j ns = Some ns'"
  shows "vx (ns' ! i) = vx (ns ! i) - fst (pair_force (ns ! i) (ns ! j))"
    and "vy (ns' ! i) = vy (ns ! i) - snd (pair_force (ns ! i) (ns ! j))"
    and "vx (ns' ! j) = vx (ns ! j) + fst (pair_force (ns ! i) (ns ! j))"
    and "vy (ns' ! j) = vy (ns ! j) + snd (pair_force (ns ! i) (ns ! j))"
    and "k \<noteq> i \<Longrightarrow> k \<noteq> j \<Longrightarrow> ns' ! k = ns ! k"
  using assms unfolding repel_pair_Some by auto

text \<open>
  C3 (as the code has it). For two nodes at distinct indices, the repulsion of the pair
  subtracts from the velocity of node \<open>i\<close> exactly the vector it adds to the velocity of
  node \<open>j\<close>, and leaves every other node alone. The vector is a positive multiple of the
  vector from \<open>i\<close> to \<open>j\<close>, so the nodes are pushed apart along the line through them. Its
  length is \<open>repulsion / dist\<^sup>2\<close> when their distance is at least 1; below 1 the distance
  is floored and the length is \<open>repulsion * dist\<close>.
\<close>

theorem repulsion_equal_and_opposite:
  assumes "i \<noteq> j" and "i < length ns" and "j < length ns"
  shows "\<exists>ns'. repel_pair i j ns = Some ns'
     \<and> vx (ns' ! i) - vx (ns ! i) = - (vx (ns' ! j) - vx (ns ! j))
     \<and> vy (ns' ! i) - vy (ns ! i) = - (vy (ns' ! j) - vy (ns ! j))
     \<and> (vx (ns' ! j) - vx (ns ! j), vy (ns' ! j) - vy (ns ! j)) = pair_force (ns ! i) (ns ! j)
     \<and> (\<forall>k. k \<noteq> i \<and> k \<noteq> j \<longrightarrow> ns' ! k = ns ! k)
     \<and> (\<exists>c. 0 < c \<and> pair_force (ns ! i) (ns ! j)
              = (c * (x (ns ! j) - x (ns ! i)), c * (y (ns ! j) - y (ns ! i))))
     \<and> (1 \<le> node_dist (ns ! i) (ns ! j) \<longrightarrow>
          sqrt (fst (pair_force (ns ! i) (ns ! j)) * fst (pair_force (ns ! i) (ns ! j))
              + snd (pair_force (ns ! i) (ns ! j)) * snd (pair_force (ns ! i) (ns ! j)))
          = repulsion / (node_dist (ns ! i) (ns ! j) * node_dist (ns ! i) (ns ! j)))
     \<and> (node_dist (ns ! i) (ns ! j) < 1 \<longrightarrow>
          sqrt (fst (pair_force (ns ! i) (ns ! j)) * fst (pair_force (ns ! i) (ns ! j))
              + snd (pair_force (ns ! i) (ns ! j)) * snd (pair_force (ns ! i) (ns ! j)))
          = repulsion * node_dist (ns ! i) (ns ! j))"
proof -
  from repel_pair_total obtain ns' where r: "repel_pair i j ns = Some ns'" by blast
  note n = repel_pair_nth [OF assms r]
  have "vx (ns' ! i) - vx (ns ! i) = - (vx (ns' ! j) - vx (ns ! j))"
    and "vy (ns' ! i) - vy (ns ! i) = - (vy (ns' ! j) - vy (ns ! j))"
    and "(vx (ns' ! j) - vx (ns ! j), vy (ns' ! j) - vy (ns ! j)) = pair_force (ns ! i) (ns ! j)"
    using n(1-4) by simp_all
  moreover have "\<forall>k. k \<noteq> i \<and> k \<noteq> j \<longrightarrow> ns' ! k = ns ! k"
    using n(5) by blast
  ultimately show ?thesis
    using r pair_force_direction [of "ns ! i" "ns ! j"]
      pair_force_magnitude_far [of "ns ! i" "ns ! j"]
      pair_force_magnitude_near [of "ns ! i" "ns ! j"]
    by blast
qed

lemma ex_dist_far: "node_dist (ex_sim ''a'' 100 100 12) (ex_sim ''b'' 103 104 12) = 5"
  by (simp add: node_dist_def ex_sim_sel)

lemma ex_dist_near: "node_dist (ex_sim ''a'' 100 100 12) (ex_sim ''b'' (201 / 2) 100 12) = 1 / 2"
proof -
  have "sqrt ((1 / 2) * (1 / 2)) = (1 / 2 :: real)" by (rule real_sqrt_unique) (simp_all add: power2_eq_square)
  then show ?thesis by (simp add: node_dist_def ex_sim_sel)
qed

theorem repulsion_equal_and_opposite_witness:
  "(0::nat) \<noteq> 1
   \<and> 0 < length [ex_sim ''a'' 100 100 12, ex_sim ''b'' 103 104 12]
   \<and> 1 < length [ex_sim ''a'' 100 100 12, ex_sim ''b'' 103 104 12]
   \<and> 1 \<le> node_dist (ex_sim ''a'' 100 100 12) (ex_sim ''b'' 103 104 12)
   \<and> pair_force (ex_sim ''a'' 100 100 12) (ex_sim ''b'' 103 104 12) = (72, 96)
   \<and> sqrt (72 * 72 + 96 * 96) = repulsion / (5 * 5)
   \<and> (\<exists>ns'. repel_pair 0 1 [ex_sim ''a'' 100 100 12, ex_sim ''b'' 103 104 12] = Some ns'
         \<and> vx (ns' ! 0) = - 72 \<and> vy (ns' ! 0) = - 96 \<and> vx (ns' ! 1) = 72 \<and> vy (ns' ! 1) = 96)"
proof -
  let ?ns = "[ex_sim ''a'' 100 100 12, ex_sim ''b'' 103 104 12]"
  have f: "pair_force (ex_sim ''a'' 100 100 12) (ex_sim ''b'' 103 104 12) = (72, 96)"
    by (simp add: pair_force_def ex_sim_sel repulsion_def)
  have h: "(0::nat) \<noteq> 1" "0 < length ?ns" "1 < length ?ns" by simp_all
  from repulsion_equal_and_opposite [OF h] obtain ns'
    where r: "repel_pair 0 1 ?ns = Some ns'"
      and a: "vx (ns' ! 0) - vx (?ns ! 0) = - (vx (ns' ! 1) - vx (?ns ! 1))"
      and b: "vy (ns' ! 0) - vy (?ns ! 0) = - (vy (ns' ! 1) - vy (?ns ! 1))"
      and c: "(vx (ns' ! 1) - vx (?ns ! 1), vy (ns' ! 1) - vy (?ns ! 1)) = pair_force (?ns ! 0) (?ns ! 1)"
      and m: "1 \<le> node_dist (?ns ! 0) (?ns ! 1) \<longrightarrow>
          sqrt (fst (pair_force (?ns ! 0) (?ns ! 1)) * fst (pair_force (?ns ! 0) (?ns ! 1))
              + snd (pair_force (?ns ! 0) (?ns ! 1)) * snd (pair_force (?ns ! 0) (?ns ! 1)))
          = repulsion / (node_dist (?ns ! 0) (?ns ! 1) * node_dist (?ns ! 0) (?ns ! 1))"
    by blast
  from c f have v1: "vx (ns' ! 1) = 72" "vy (ns' ! 1) = 96" by (simp_all add: ex_sim_sel)
  with a b have v0: "vx (ns' ! 0) = - 72" "vy (ns' ! 0) = - 96" by (simp_all add: ex_sim_sel)
  from m f have mag: "sqrt (72 * 72 + 96 * 96) = repulsion / (5 * 5)"
    by (simp add: ex_dist_far)
  from r v0 v1 have e: "\<exists>ns'. repel_pair 0 1 ?ns = Some ns'
         \<and> vx (ns' ! 0) = - 72 \<and> vy (ns' ! 0) = - 96 \<and> vx (ns' ! 1) = 72 \<and> vy (ns' ! 1) = 96"
    by blast
  from h f mag e show ?thesis by (simp add: ex_dist_far)
qed

text \<open>
  The two nodes are half a unit apart: the velocity of the second grows by \<open>(1500, 0)\<close>,
  of length 1500, which is neither \<open>repulsion\<close> over the square of their distance
  (12000) nor over the square of the floored distance (3000).
\<close>

theorem repulsion_magnitude_counterexample:
  "x (ex_sim ''a'' 100 100 12) \<noteq> x (ex_sim ''b'' (201 / 2) 100 12)
   \<and> node_dist (ex_sim ''a'' 100 100 12) (ex_sim ''b'' (201 / 2) 100 12) = 1 / 2
   \<and> repel_pair 0 1 [ex_sim ''a'' 100 100 12, ex_sim ''b'' (201 / 2) 100 12]
       = Some [(ex_sim ''a'' 100 100 12)\<lparr>vx := - 1500, vy := 0\<rparr>,
               (ex_sim ''b'' (201 / 2) 100 12)\<lparr>vx := 1500, vy := 0\<rparr>]
   \<and> sqrt (1500 * 1500 + 0 * 0) = (1500::real)
   \<and> sqrt (1500 * 1500 + 0 * 0)
       \<noteq> repulsion / (node_dist (ex_sim ''a'' 100 100 12) (ex_sim ''b'' (201 / 2) 100 12)
                       * node_dist (ex_sim ''a'' 100 100 12) (ex_sim ''b'' (201 / 2) 100 12))
   \<and> sqrt (1500 * 1500 + 0 * 0)
       \<noteq> repulsion / (max (node_dist (ex_sim ''a'' 100 100 12) (ex_sim ''b'' (201 / 2) 100 12)) 1
                       * max (node_dist (ex_sim ''a'' 100 100 12) (ex_sim ''b'' (201 / 2) 100 12)) 1)
   \<and> repulsion / (node_dist (ex_sim ''a'' 100 100 12) (ex_sim ''b'' (201 / 2) 100 12)
                   * node_dist (ex_sim ''a'' 100 100 12) (ex_sim ''b'' (201 / 2) 100 12)) = 12000
   \<and> repulsion / (max (node_dist (ex_sim ''a'' 100 100 12) (ex_sim ''b'' (201 / 2) 100 12)) 1
                   * max (node_dist (ex_sim ''a'' 100 100 12) (ex_sim ''b'' (201 / 2) 100 12)) 1) = 3000"
proof -
  have f: "pair_force (ex_sim ''a'' 100 100 12) (ex_sim ''b'' (201 / 2) 100 12) = (1500, 0)"
    using pair_force_near [of "ex_sim ''a'' 100 100 12" "ex_sim ''b'' (201 / 2) 100 12"]
    by (simp add: ex_dist_near ex_sim_sel repulsion_def)
  have "repel_pair 0 1 [ex_sim ''a'' 100 100 12, ex_sim ''b'' (201 / 2) 100 12]
       = Some [(ex_sim ''a'' 100 100 12)\<lparr>vx := - 1500, vy := 0\<rparr>,
               (ex_sim ''b'' (201 / 2) 100 12)\<lparr>vx := 1500, vy := 0\<rparr>]"
    unfolding repel_pair_Some by (simp add: f ex_sim_sel)
  then show ?thesis by (simp add: ex_dist_near ex_sim_sel repulsion_def)
qed

subsection \<open>Edges with an unknown end\<close>

lemma nodeMap_None_iff: "nodeMap ns k = None \<longleftrightarrow> k \<notin> id_node ` set ns"
proof -
  have "fst ` set (zip (map id_node ns) [0 ..< length ns]) = set (map id_node ns)"
    by (metis length_map length_upt map_fst_zip minus_nat.diff_0 set_map)
  then show ?thesis
    by (simp add: nodeMap_def map_of_eq_None_iff)
qed

lemma nodeMap_static:
  assumes "map static ns' = map static ns"
  shows "nodeMap ns' = nodeMap ns"
proof -
  have "map id_node zs = map fst (map static zs)" for zs
    by (simp add: static_def)
  with assms have ids: "map id_node ns' = map id_node ns" by metis
  from assms have "length ns' = length ns" by (metis length_map)
  with ids show ?thesis by (simp add: nodeMap_def)
qed

lemma unresolved_lookup:
  "\<not> resolved ns e \<Longrightarrow> nodeMap ns (source e) = None \<or> nodeMap ns (target e) = None"
  by (auto simp: resolved_def nodeMap_None_iff)

lemma draw_edge_unresolved:
  "nm (source e) = None \<or> nm (target e) = None \<Longrightarrow> draw_edge nm ns e = []"
  by (auto simp: draw_edge_def split: option.splits)

lemma draw_edge_resolved:
  "nm (source e) = Some si \<Longrightarrow> nm (target e) = Some ti \<Longrightarrow> draw_edge nm ns e \<noteq> []"
  by (simp add: draw_edge_def Let_def)

lemma spring_all_skip:
  assumes "nm (source e) = None \<or> nm (target e) = None"
  shows "spring_all nm (es1 @ e # es2) ns = spring_all nm (es1 @ es2) ns"
proof (induction es1 arbitrary: ns)
  case Nil
  from assms show ?case by (simp add: spring_edge_unresolved)
next
  case (Cons e1 es1)
  from spring_edge_total obtain ns1 where "spring_edge nm e1 ns = Some ns1" by blast
  with Cons.IH [of ns1] show ?case by simp
qed

lemma draw_edges_skip:
  assumes "nm (source e) = None \<or> nm (target e) = None"
  shows "draw_edges nm ns (es1 @ e # es2) = draw_edges nm ns (es1 @ es2)"
  using assms by (simp add: draw_edges_def draw_edge_unresolved)

lemma simulate_skip:
  assumes "\<not> resolved ns e"
  shows "simulate W H (es1 @ e # es2) ns = simulate W H (es1 @ es2) ns"
proof -
  from repel_all_total obtain ns1 where a: "repel_all ns = Some ns1" by blast
  have "nodeMap ns1 = nodeMap ns" using repel_all_static [OF a] by (rule nodeMap_static)
  with assms have "nodeMap ns1 (source e) = None \<or> nodeMap ns1 (target e) = None"
    by (simp add: unresolved_lookup)
  then have "spring_all (nodeMap ns1) (es1 @ e # es2) ns1 = spring_all (nodeMap ns1) (es1 @ es2) ns1"
    by (rule spring_all_skip)
  with a show ?thesis by (simp add: simulate_def)
qed

lemma draw_skip:
  assumes "\<not> resolved (nodesRef st) e"
  shows "draw (Some (W, H)) (Some (g\<lparr>edges := es1 @ e # es2\<rparr>)) st
       = draw (Some (W, H)) (Some (g\<lparr>edges := es1 @ es2\<rparr>)) st"
proof -
  from repel_all_total obtain ns1 where a: "repel_all (nodesRef st) = Some ns1" by blast
  have "nodeMap ns1 = nodeMap (nodesRef st)" using repel_all_static [OF a] by (rule nodeMap_static)
  with assms have u: "nodeMap ns1 (source e) = None \<or> nodeMap ns1 (target e) = None"
    by (simp add: unresolved_lookup)
  from spring_all_total obtain ns2
    where b: "spring_all (nodeMap ns1) (es1 @ es2) ns1 = Some ns2" by blast
  with spring_all_skip [OF u]
  have c: "spring_all (nodeMap ns1) (es1 @ e # es2) ns1 = Some ns2" by simp
  from a b c draw_edges_skip [OF u] show ?thesis
    by (simp add: draw_def)
qed

lemma draw_simulate:
  "draw (Some (W, H)) (Some g) st = Some (st', cmds) \<Longrightarrow>
   simulate W H (edges g) (nodesRef st) = Some (nodesRef st')"
proof -
  assume d: "draw (Some (W, H)) (Some g) st = Some (st', cmds)"
  from repel_all_total obtain ns1 where a: "repel_all (nodesRef st) = Some ns1" by blast
  from spring_all_total obtain ns2
    where b: "spring_all (nodeMap ns1) (edges g) ns1 = Some ns2" by blast
  from a b d have "st' = st\<lparr>nodesRef := map (integrate W H) ns2, animRef := True\<rparr>"
    by (auto simp: draw_def Let_def)
  with a b show ?thesis by (simp add: simulate_def)
qed

lemma draw_total: "\<exists>r. draw canvas graph st = Some r"
proof (cases "\<exists>W H g. canvas = Some (W, H) \<and> graph = Some g")
  case True
  then obtain W H g where cg: "canvas = Some (W, H)" "graph = Some g" by blast
  from repel_all_total obtain ns1 where a: "repel_all (nodesRef st) = Some ns1" by blast
  from spring_all_total obtain ns2
    where b: "spring_all (nodeMap ns1) (edges g) ns1 = Some ns2" by blast
  from cg a b show ?thesis by (simp add: draw_def Let_def)
next
  case False
  then show ?thesis by (auto simp: draw_def split: option.splits prod.splits)
qed

text \<open>
  C5. An edge whose source or target is not the id of a node in the current list is
  skipped by the spring loop, which returns the nodes as they are, and by the drawing of
  the edges, which issues no call for it. The step and the frame go on: they return, and
  with the same result as if the edge were not in the list.
\<close>

theorem unresolved_edge_skipped:
  assumes u: "\<not> resolved (nodesRef st) e"
  shows "spring_edge (nodeMap (nodesRef st)) e ns = Some ns
       \<and> draw_edge (nodeMap (nodesRef st)) ns e = []
       \<and> (\<exists>ns'. simulate W H (es1 @ e # es2) (nodesRef st) = Some ns'
                \<and> simulate W H (es1 @ es2) (nodesRef st) = Some ns')
       \<and> (\<exists>r. draw (Some (W, H)) (Some (g\<lparr>edges := es1 @ e # es2\<rparr>)) st = Some r
              \<and> draw (Some (W, H)) (Some (g\<lparr>edges := es1 @ es2\<rparr>)) st = Some r)"
proof -
  note l = unresolved_lookup [OF u]
  from simulate_total obtain ns' where s: "simulate W H (es1 @ es2) (nodesRef st) = Some ns'"
    by blast
  from draw_total obtain r
    where d: "draw (Some (W, H)) (Some (g\<lparr>edges := es1 @ es2\<rparr>)) st = Some r" by blast
  from s d simulate_skip [OF u, where W = W and H = H and ?es1.0 = es1 and ?es2.0 = es2] draw_skip [OF u, where W = W and H = H and g = g and ?es1.0 = es1 and ?es2.0 = es2]
    spring_edge_unresolved [OF l, of ns] draw_edge_unresolved [OF l, of ns]
  show ?thesis by simp
qed

theorem unresolved_edge_skipped_witness:
  "\<not> resolved (nodesRef ex_refs) (ex_edge ''a'' ''zz'' ''$99,999'')
   \<and> spring_edge (nodeMap (nodesRef ex_refs)) (ex_edge ''a'' ''zz'' ''$99,999'') (nodesRef ex_refs)
       = Some (nodesRef ex_refs)
   \<and> draw_edge (nodeMap (nodesRef ex_refs)) (nodesRef ex_refs) (ex_edge ''a'' ''zz'' ''$99,999'') = []
   \<and> draw_edge (nodeMap (nodesRef ex_refs)) (nodesRef ex_refs) (ex_edge ''a'' ''a'' ''$99,999'') \<noteq> []
   \<and> (\<exists>r. draw (Some (800, 600)) (Some (ex_graph\<lparr>edges := [ex_edge ''a'' ''a'' ''$1''] @ ex_edge ''a'' ''zz'' ''$99,999'' # []\<rparr>)) ex_refs = Some r
          \<and> draw (Some (800, 600)) (Some (ex_graph\<lparr>edges := [ex_edge ''a'' ''a'' ''$1''] @ []\<rparr>)) ex_refs = Some r)"
proof -
  have h: "\<not> resolved (nodesRef ex_refs) (ex_edge ''a'' ''zz'' ''$99,999'')"
    by (simp add: resolved_def ex_edge_def ex_refs_def ex_sim_sel)
  have "nodeMap (nodesRef ex_refs) ''a'' = Some 0"
    by (simp add: nodeMap_def ex_refs_def ex_sim_sel)
  then have d: "draw_edge (nodeMap (nodesRef ex_refs)) (nodesRef ex_refs) (ex_edge ''a'' ''a'' ''$99,999'') \<noteq> []"
    by (simp add: draw_edge_def ex_edge_def Let_def)
  from h d unresolved_edge_skipped [OF h, where ns = "nodesRef ex_refs" and W = 800 and H = 600
      and ?es1.0 = "[ex_edge ''a'' ''a'' ''$1'']" and ?es2.0 = "[]" and g = ex_graph]
  show ?thesis by blast
qed

subsection \<open>Hover detection\<close>

lemma find_hit_Some_iff:
  "find_hit mx my ns = Some i \<longleftrightarrow>
     i < length ns \<and> hit mx my (ns ! i) \<and> (\<forall>j<i. \<not> hit mx my (ns ! j))"
proof (induction ns arbitrary: i)
  case Nil
  show ?case by simp
next
  case (Cons n ns)
  show ?case
  proof (cases "hit mx my n")
    case True
    then show ?thesis by (cases i) auto
  next
    case False
    show ?thesis
    proof (cases i)
      case 0
      with False show ?thesis by simp
    next
      case (Suc i')
      have "(\<forall>j<Suc i'. \<not> hit mx my ((n # ns) ! j)) \<longleftrightarrow> (\<forall>j<i'. \<not> hit mx my (ns ! j))"
        using False by (auto simp: less_Suc_eq_0_disj)
      with False Suc Cons.IH [of i'] show ?thesis by auto
    qed
  qed
qed

lemma find_hit_None_iff: "find_hit mx my ns = None \<longleftrightarrow> (\<forall>n \<in> set ns. \<not> hit mx my n)"
  by (induction ns) auto

lemma hoveredRef_handleMouseMove:
  "hoveredRef (handleMouseMove cx cy l t st) = find_hit (cx - l) (cy - t) (nodesRef st)"
  by (simp add: handleMouseMove_def Let_def)

lemma hit_iff: "hit mx my n \<longleftrightarrow> sqrt ((mx - x n) * (mx - x n) + (my - y n) * (my - y n)) < radius n + 5"
  by (simp add: hit_def Let_def)

text \<open>
  C6. The hover reference after a mouse move is the first node of the list, in its order,
  whose hit zone holds the pointer: a node later in the list is never taken when an
  earlier one is hit, also when the later one is nearer to the pointer.
\<close>

theorem hover_takes_first_in_order:
  "(hoveredRef (handleMouseMove cx cy l t st) = Some i \<longleftrightarrow>
      i < length (nodesRef st)
      \<and> hit (cx - l) (cy - t) (nodesRef st ! i)
      \<and> (\<forall>j<i. \<not> hit (cx - l) (cy - t) (nodesRef st ! j)))
   \<and> (i < j \<and> j < length (nodesRef st)
        \<and> hit (cx - l) (cy - t) (nodesRef st ! i) \<and> hit (cx - l) (cy - t) (nodesRef st ! j)
      \<longrightarrow> hoveredRef (handleMouseMove cx cy l t st) \<noteq> Some j)"
proof -
  have a: "hoveredRef (handleMouseMove cx cy l t st) = Some i \<longleftrightarrow>
      i < length (nodesRef st)
      \<and> hit (cx - l) (cy - t) (nodesRef st ! i)
      \<and> (\<forall>j<i. \<not> hit (cx - l) (cy - t) (nodesRef st ! j))"
    by (simp add: hoveredRef_handleMouseMove find_hit_Some_iff)
  have b: "hoveredRef (handleMouseMove cx cy l t st) \<noteq> Some j"
    if "i < j" "hit (cx - l) (cy - t) (nodesRef st ! i)"
    using that by (auto simp: hoveredRef_handleMouseMove find_hit_Some_iff)
  from a b show ?thesis by blast
qed

lemma ex_overlap_hits:
  "hit 110 100 (ex_sim ''a'' 100 100 12)"
  "hit 110 100 (ex_sim ''b'' 113 100 12)"
  "sqrt ((110 - x (ex_sim ''b'' 113 100 12)) * (110 - x (ex_sim ''b'' 113 100 12))
        + (100 - y (ex_sim ''b'' 113 100 12)) * (100 - y (ex_sim ''b'' 113 100 12))) = 3"
  "sqrt ((110 - x (ex_sim ''a'' 100 100 12)) * (110 - x (ex_sim ''a'' 100 100 12))
        + (100 - y (ex_sim ''a'' 100 100 12)) * (100 - y (ex_sim ''a'' 100 100 12))) = 10"
  by (simp_all add: hit_iff ex_sim_sel)

theorem hover_takes_first_in_order_witness:
  "(0::nat) < 1 \<and> 1 < length (nodesRef ex_overlap)
   \<and> hit (110 - 0) (100 - 0) (nodesRef ex_overlap ! 0)
   \<and> hit (110 - 0) (100 - 0) (nodesRef ex_overlap ! 1)
   \<and> sqrt ((110 - x (nodesRef ex_overlap ! 1)) * (110 - x (nodesRef ex_overlap ! 1))
          + (100 - y (nodesRef ex_overlap ! 1)) * (100 - y (nodesRef ex_overlap ! 1)))
     < sqrt ((110 - x (nodesRef ex_overlap ! 0)) * (110 - x (nodesRef ex_overlap ! 0))
          + (100 - y (nodesRef ex_overlap ! 0)) * (100 - y (nodesRef ex_overlap ! 0)))
   \<and> hoveredRef (handleMouseMove 110 100 0 0 ex_overlap) = Some 0
   \<and> hoveredRef (handleMouseMove 110 100 0 0 ex_overlap) \<noteq> Some 1"
  using hover_takes_first_in_order [where cx = 110 and cy = 100 and l = 0 and t = 0
      and st = ex_overlap and i = 0 and j = 1] ex_overlap_hits
  by (simp add: ex_overlap_def)

lemma sqrt_horizontal:
  fixes a :: real
  assumes "0 \<le> a"
  shows "sqrt (a * a + 0 * 0) = a"
  using assms by simp

text \<open>
  C7 (as the code has it). With a single node, the pointer is a hit exactly when its
  distance from the centre is below \<open>radius + 5\<close>: at distance \<open>radius\<close> and at distance
  \<open>radius + 4.9\<close> the node is hovered, at distance \<open>radius + 5\<close> it is not.
\<close>

theorem hit_zone_is_radius_plus_5:
  "hoveredRef (handleMouseMove cx cy l t (st\<lparr>nodesRef := [n]\<rparr>)) =
     (if sqrt ((cx - l - x n) * (cx - l - x n) + (cy - t - y n) * (cy - t - y n)) < radius n + 5
      then Some 0 else None)
   \<and> (sqrt ((cx - l - x n) * (cx - l - x n) + (cy - t - y n) * (cy - t - y n)) = radius n
        \<longrightarrow> hoveredRef (handleMouseMove cx cy l t (st\<lparr>nodesRef := [n]\<rparr>)) = Some 0)
   \<and> (sqrt ((cx - l - x n) * (cx - l - x n) + (cy - t - y n) * (cy - t - y n)) = radius n + 4.9
        \<longrightarrow> hoveredRef (handleMouseMove cx cy l t (st\<lparr>nodesRef := [n]\<rparr>)) = Some 0)
   \<and> (sqrt ((cx - l - x n) * (cx - l - x n) + (cy - t - y n) * (cy - t - y n)) = radius n + 5
        \<longrightarrow> hoveredRef (handleMouseMove cx cy l t (st\<lparr>nodesRef := [n]\<rparr>)) = None)"
  by (simp add: hoveredRef_handleMouseMove hit_iff)

lemma ex_hit_distances:
  "sqrt ((112 - 0 - x (ex_sim ''a'' 100 100 12)) * (112 - 0 - x (ex_sim ''a'' 100 100 12))
       + (100 - 0 - y (ex_sim ''a'' 100 100 12)) * (100 - 0 - y (ex_sim ''a'' 100 100 12)))
   = radius (ex_sim ''a'' 100 100 12)"
  "sqrt ((1169 / 10 - 0 - x (ex_sim ''a'' 100 100 12)) * (1169 / 10 - 0 - x (ex_sim ''a'' 100 100 12))
       + (100 - 0 - y (ex_sim ''a'' 100 100 12)) * (100 - 0 - y (ex_sim ''a'' 100 100 12)))
   = radius (ex_sim ''a'' 100 100 12) + 4.9"
  "sqrt ((117 - 0 - x (ex_sim ''a'' 100 100 12)) * (117 - 0 - x (ex_sim ''a'' 100 100 12))
       + (100 - 0 - y (ex_sim ''a'' 100 100 12)) * (100 - 0 - y (ex_sim ''a'' 100 100 12)))
   = radius (ex_sim ''a'' 100 100 12) + 5"
  using sqrt_horizontal [of 12] sqrt_horizontal [of "169 / 10"] sqrt_horizontal [of 17]
  by (simp_all add: ex_sim_sel)

theorem hit_zone_is_radius_plus_5_witness:
  "sqrt ((112 - 0 - x (ex_sim ''a'' 100 100 12)) * (112 - 0 - x (ex_sim ''a'' 100 100 12))
       + (100 - 0 - y (ex_sim ''a'' 100 100 12)) * (100 - 0 - y (ex_sim ''a'' 100 100 12)))
     = radius (ex_sim ''a'' 100 100 12)
   \<and> hoveredRef (handleMouseMove 112 100 0 0 (ex_refs\<lparr>nodesRef := [ex_sim ''a'' 100 100 12]\<rparr>)) = Some 0
   \<and> sqrt ((1169 / 10 - 0 - x (ex_sim ''a'' 100 100 12)) * (1169 / 10 - 0 - x (ex_sim ''a'' 100 100 12))
       + (100 - 0 - y (ex_sim ''a'' 100 100 12)) * (100 - 0 - y (ex_sim ''a'' 100 100 12)))
     = radius (ex_sim ''a'' 100 100 12) + 4.9
   \<and> hoveredRef (handleMouseMove (1169 / 10) 100 0 0 (ex_refs\<lparr>nodesRef := [ex_sim ''a'' 100 100 12]\<rparr>)) = Some 0
   \<and> sqrt ((117 - 0 - x (ex_sim ''a'' 100 100 12)) * (117 - 0 - x (ex_sim ''a'' 100 100 12))
       + (100 - 0 - y (ex_sim ''a'' 100 100 12)) * (100 - 0 - y (ex_sim ''a'' 100 100 12)))
     = radius (ex_sim ''a'' 100 100 12) + 5
   \<and> hoveredRef (handleMouseMove 117 100 0 0 (ex_refs\<lparr>nodesRef := [ex_sim ''a'' 100 100 12]\<rparr>)) = None"
  using hit_zone_is_radius_plus_5 [where cx = 112 and cy = 100 and l = 0 and t = 0
          and st = ex_refs and n = "ex_sim ''a'' 100 100 12"]
        hit_zone_is_radius_plus_5 [where cx = "1169 / 10" and cy = 100 and l = 0 and t = 0
          and st = ex_refs and n = "ex_sim ''a'' 100 100 12"]
        hit_zone_is_radius_plus_5 [where cx = 117 and cy = 100 and l = 0 and t = 0
          and st = ex_refs and n = "ex_sim ''a'' 100 100 12"]
        ex_hit_distances
  by blast

text \<open>
  The pointer at \<open>(112, 100)\<close> is at distance 12, the radius, from the node at
  \<open>(100, 100)\<close>, and the node is hovered.
\<close>

theorem hit_at_radius_counterexample:
  "sqrt ((112 - x (ex_sim ''a'' 100 100 12)) * (112 - x (ex_sim ''a'' 100 100 12))
       + (100 - y (ex_sim ''a'' 100 100 12)) * (100 - y (ex_sim ''a'' 100 100 12)))
     = radius (ex_sim ''a'' 100 100 12)
   \<and> hit 112 100 (ex_sim ''a'' 100 100 12)
   \<and> find_hit 112 100 [ex_sim ''a'' 100 100 12] = Some 0
   \<and> hoveredRef (handleMouseMove 112 100 0 0 (ex_refs\<lparr>nodesRef := [ex_sim ''a'' 100 100 12]\<rparr>)) = Some 0"
  using sqrt_horizontal [of 12]
  by (simp add: hoveredRef_handleMouseMove hit_iff ex_sim_sel)

subsection \<open>Placement of the tooltip\<close>

lemma tooltip_anchor_eq:
  "tooltip_anchor W n =
     (if W < x n + 15 + tooltipW then x n - tooltipW - 15 else x n + 15,
      if y n - tooltipH - 5 < 0 then y n + 20 else y n - tooltipH - 5)"
  by (simp add: tooltip_anchor_def Let_def)

text \<open>
  C8 (as the code has it). The panel of the hovered node, 180 wide and 60 high, has
  its left edge at \<open>x + 15\<close>, or at \<open>x - tooltipW - 15\<close> when \<open>x + 15 + tooltipW\<close> exceeds the
  width of the canvas, and its top at \<open>y - tooltipH - 5\<close>, or at \<open>y + 20\<close>, below the node,
  when that is negative. The panel lies inside the canvas when the canvas is at least 390
  wide and 145 high and the centre of the node is inside it.
\<close>

theorem tooltip_placement:
  "tooltip_anchor W n =
     (if W < x n + 15 + tooltipW then x n - tooltipW - 15 else x n + 15,
      if y n - tooltipH - 5 < 0 then y n + 20 else y n - tooltipH - 5)
   \<and> tooltipW = 180 \<and> tooltipH = 60
   \<and> hd (draw_tooltip W ns (Some i))
       = RoundRect (fst (tooltip_anchor W (ns ! i))) (snd (tooltip_anchor W (ns ! i))) tooltipW tooltipH
   \<and> (390 \<le> W \<and> 145 \<le> H \<and> 0 \<le> x n \<and> x n \<le> W \<and> 0 \<le> y n \<and> y n \<le> H \<longrightarrow>
        0 \<le> fst (tooltip_anchor W n) \<and> fst (tooltip_anchor W n) + tooltipW \<le> W
        \<and> 0 \<le> snd (tooltip_anchor W n) \<and> snd (tooltip_anchor W n) + tooltipH \<le> H)"
proof -
  have inside: "0 \<le> fst (tooltip_anchor W n) \<and> fst (tooltip_anchor W n) + tooltipW \<le> W
        \<and> 0 \<le> snd (tooltip_anchor W n) \<and> snd (tooltip_anchor W n) + tooltipH \<le> H"
    if "390 \<le> W" "145 \<le> H" "0 \<le> x n" "x n \<le> W" "0 \<le> y n" "y n \<le> H"
    using that by (simp add: tooltip_anchor_eq tooltipW_def tooltipH_def)
  have rect: "hd (draw_tooltip W ns (Some i))
       = RoundRect (fst (tooltip_anchor W (ns ! i))) (snd (tooltip_anchor W (ns ! i))) tooltipW tooltipH"
    by (simp add: draw_tooltip_def Let_def split: prod.splits)
  from inside rect show ?thesis
    by (simp add: tooltip_anchor_eq tooltipW_def tooltipH_def)
qed

theorem tooltip_placement_witness:
  "(390::real) \<le> 800 \<and> (145::real) \<le> 600
   \<and> 0 \<le> x (ex_sim ''a'' 700 30 12) \<and> x (ex_sim ''a'' 700 30 12) \<le> 800
   \<and> 0 \<le> y (ex_sim ''a'' 700 30 12) \<and> y (ex_sim ''a'' 700 30 12) \<le> 600
   \<and> 800 < x (ex_sim ''a'' 700 30 12) + 15 + tooltipW
   \<and> tooltip_anchor 800 (ex_sim ''a'' 700 30 12) = (505, 50)
   \<and> 0 \<le> fst (tooltip_anchor 800 (ex_sim ''a'' 700 30 12))
   \<and> fst (tooltip_anchor 800 (ex_sim ''a'' 700 30 12)) + tooltipW \<le> 800
   \<and> 0 \<le> snd (tooltip_anchor 800 (ex_sim ''a'' 700 30 12))
   \<and> snd (tooltip_anchor 800 (ex_sim ''a'' 700 30 12)) + tooltipH \<le> 600"
  using tooltip_placement [where W = 800 and H = 600 and n = "ex_sim ''a'' 700 30 12"]
  by (simp add: ex_sim_sel tooltipW_def tooltipH_def)

text \<open>
  On a canvas 300 wide, the node at \<open>(150, 200)\<close> lies inside the canvas; the right-side
  anchor would end at 345, so the panel is anchored at \<open>150 - 180 - 15 = -45\<close>, left of the
  canvas.
\<close>

theorem tooltip_left_overflow_counterexample:
  "12 \<le> x (ex_sim ''a'' 150 200 12) \<and> x (ex_sim ''a'' 150 200 12) \<le> 300 - 12
   \<and> 12 \<le> y (ex_sim ''a'' 150 200 12) \<and> y (ex_sim ''a'' 150 200 12) \<le> 400 - 12
   \<and> tooltip_anchor 300 (ex_sim ''a'' 150 200 12) = (- 45, 135)
   \<and> fst (tooltip_anchor 300 (ex_sim ''a'' 150 200 12)) < 0
   \<and> hd (draw_tooltip 300 [ex_sim ''a'' 150 200 12] (Some 0)) = RoundRect (- 45) 135 180 60"
  by (simp add: tooltip_anchor_eq draw_tooltip_def Let_def tooltipW_def tooltipH_def ex_sim_sel)

subsection \<open>Classification of an edge\<close>

lemma floorlog_2_1: "floorlog 2 (Suc 0) = Suc 0"
  by (simp add: compute_floorlog)

lemma floor_log2_nat:
  assumes "0 < n"
  shows "floor_log2 n 1 = int (floorlog 2 n) - 1"
proof -
  have "2 ^ (floorlog 2 n - 1) \<le> n"
    using floorlog_bounds [of n 2] assms by simp
  moreover have "1 \<le> floorlog 2 n" using assms by (simp add: floorlog_def)
  ultimately show ?thesis
    by (simp add: floor_log2_def floorlog_2_1 Let_def nat_diff_distrib)
qed

lemma round_at_exact:
  assumes "n * 2 ^ s < 2 ^ 1024"
  shows "round_at (- int s) n 1 = Fin (real n)"
proof -
  from assms have "\<not> (2::nat) ^ 1024 \<le> n * 2 ^ s" by (simp only: not_le)
  then show ?thesis
    unfolding round_at_def Let_def by (simp del: power_numeral numeral_pow)
qed

lemma round_double_exact:
  assumes pos: "0 < n" and small: "n < 2 ^ 53"
  shows "round_double n 1 = Fin (real n)"
proof -
  define b where "b = floorlog 2 n"
  have bnd: "2 ^ (b - 1) \<le> n"
    using floorlog_bounds [of n 2] pos by (simp add: b_def)
  have b1: "1 \<le> b" using pos by (simp add: b_def floorlog_def)
  have "(2::nat) ^ (b - 1) < 2 ^ 53" using bnd small by linarith
  then have b53: "b - 1 < 53"
    by (simp only: power_strict_increasing_iff one_less_numeral_iff semiring_norm)
  define s where "s = 52 - (b - 1)"
  have e: "max (floor_log2 n 1 - 52) (- 1074) = - int s"
  proof -
    have "floor_log2 n 1 = int b - 1" using floor_log2_nat [OF pos] by (simp add: b_def)
    then show ?thesis using b53 b1 by (simp add: s_def)
  qed
  have "n * 2 ^ s < 2 ^ 53 * 2 ^ 52"
  proof -
    have "n * 2 ^ s < 2 ^ 53 * 2 ^ s" using small by simp
    also have "(2::nat) ^ 53 * 2 ^ s \<le> 2 ^ 53 * 2 ^ 52"
    proof -
      have "(2::nat) ^ s \<le> 2 ^ 52" by (rule power_increasing) (simp_all add: s_def)
      then show ?thesis by (rule mult_le_mono2)
    qed
    finally show ?thesis .
  qed
  also have "(2::nat) ^ 53 * 2 ^ 52 < 2 ^ 1024"
    by (simp only: power_add [symmetric] power_strict_increasing_iff)
  finally have "n * 2 ^ s < 2 ^ 1024" .
  then have "round_at (- int s) n 1 = Fin (real n)" by (rule round_at_exact)
  with pos show ?thesis unfolding round_double_def e by simp
qed

lemma isDigit_cases:
  "isDigit c \<longleftrightarrow> c = CHR ''0'' \<or> c = CHR ''1'' \<or> c = CHR ''2'' \<or> c = CHR ''3'' \<or> c = CHR ''4''
     \<or> c = CHR ''5'' \<or> c = CHR ''6'' \<or> c = CHR ''7'' \<or> c = CHR ''8'' \<or> c = CHR ''9''"
  by (auto simp: isDigit_def)

lemma isDigit_not_other:
  assumes "isDigit c"
  shows "\<not> isWhiteSpace c" "c \<noteq> CHR ''-''" "c \<noteq> CHR ''+''" "c \<noteq> CHR ''I''"
  using assms by (auto simp: isDigit_cases isWhiteSpace_def)

lemma strUnsignedDecimalLiteral_digits:
  assumes ne: "ds \<noteq> []" and dig: "\<forall>c \<in> set ds. isDigit c" and rest: "ends_literal rest"
  shows "strUnsignedDecimalLiteral (ds @ rest) = round_double (digitsVal ds) 1"
proof -
  from ne obtain c r where ds: "ds = c # r" by (cases ds) auto
  with dig have c: "isDigit c" by simp
  have inf: "take 8 (ds @ rest) \<noteq> ''Infinity''"
    using isDigit_not_other(4) [OF c] by (simp add: ds)
  have tw: "takeWhile isDigit rest = []" and dw: "dropWhile isDigit rest = rest"
    using rest by (cases rest; simp add: ends_literal_def)+
  have ip: "takeWhile isDigit (ds @ rest) = ds"
    using dig by (simp add: takeWhile_append2 tw)
  have r1: "dropWhile isDigit (ds @ rest) = rest"
    using dig by (simp add: dropWhile_append2 dw)
  have fp: "(case rest of [] \<Rightarrow> [] | c # r \<Rightarrow> if c = CHR ''.'' then takeWhile isDigit r else []) = []"
    using rest by (cases rest) (simp_all add: ends_literal_def)
  have r2: "(case rest of [] \<Rightarrow> [] | c # r \<Rightarrow> if c = CHR ''.'' then dropWhile isDigit r else rest) = rest"
    using rest by (cases rest) (simp_all add: ends_literal_def)
  have ex: "exponentPart rest = 0"
    using rest by (cases rest) (simp_all add: ends_literal_def exponentPart_def)
  show ?thesis
    unfolding strUnsignedDecimalLiteral_def Let_def ip r1 fp r2 ex
    using inf ne by simp
qed

lemma parseFloat_digits:
  assumes ne: "ds \<noteq> []" and dig: "\<forall>c \<in> set ds. isDigit c" and rest: "ends_literal rest"
  shows "parseFloat (ds @ rest) = round_double (digitsVal ds) 1"
proof -
  from ne obtain c r where ds: "ds = c # r" by (cases ds) auto
  with dig have c: "isDigit c" by simp
  have "parseFloat (ds @ rest) = strUnsignedDecimalLiteral (ds @ rest)"
    using isDigit_not_other(1-3) [OF c] by (simp add: parseFloat_def ds)
  with assms show ?thesis by (simp add: strUnsignedDecimalLiteral_digits)
qed

lemma parseFloat_digits_exact:
  assumes ne: "ds \<noteq> []" and dig: "\<forall>c \<in> set ds. isDigit c" and rest: "ends_literal rest"
    and small: "digitsVal ds < 2 ^ 53"
  shows "parseFloat (ds @ rest) = Fin (real (digitsVal ds))"
proof (cases "digitsVal ds = 0")
  case True
  then show ?thesis
    using parseFloat_digits [OF ne dig rest] by (simp add: round_double_def)
next
  case False
  then have "0 < digitsVal ds" by simp
  from round_double_exact [OF this small] parseFloat_digits [OF ne dig rest]
  show ?thesis by simp
qed

text \<open>
  C1. An edge is suspicious exactly when its label contains \<^verbatim>\<open>$\<close> and \<^verbatim>\<open>parseFloat\<close> of the
  label without \<^verbatim>\<open>$\<close> and \<^verbatim>\<open>,\<close> is a number greater than 50000. When what is left of the
  label starts with a digit string, of a value below \<open>2 ^ 53\<close>, that ends the literal, the
  number is that value. \<^verbatim>\<open>$50,001\<close> is suspicious, \<^verbatim>\<open>$50,000\<close> and \<^verbatim>\<open>50000\<close> are not, and a label
  whose content does not parse (\<^verbatim>\<open>NaN\<close>) is not suspicious.
\<close>

theorem suspicious_iff:
  "(isSuspicious e \<longleftrightarrow>
      CHR ''$'' \<in> set (GraphEdge.label e)
      \<and> ((\<exists>v. parseFloat (replace_dollar_comma (GraphEdge.label e)) = Fin v \<and> 50000 < v)
         \<or> parseFloat (replace_dollar_comma (GraphEdge.label e)) = PosInf))
   \<and> (replace_dollar_comma (GraphEdge.label e) = ds @ rest \<and> ds \<noteq> [] \<and> (\<forall>c \<in> set ds. isDigit c)
        \<and> ends_literal rest \<and> digitsVal ds < 2 ^ 53
      \<longrightarrow> (isSuspicious e \<longleftrightarrow> CHR ''$'' \<in> set (GraphEdge.label e) \<and> 50000 < digitsVal ds))
   \<and> (parseFloat (replace_dollar_comma (GraphEdge.label e)) = NaN \<longrightarrow> \<not> isSuspicious e)
   \<and> isSuspicious (ex_edge s t ''$50,001'')
   \<and> \<not> isSuspicious (ex_edge s t ''$50,000'')
   \<and> \<not> isSuspicious (ex_edge s t ''50000'')"
proof -
  have a: "isSuspicious e \<longleftrightarrow>
      CHR ''$'' \<in> set (GraphEdge.label e)
      \<and> ((\<exists>v. parseFloat (replace_dollar_comma (GraphEdge.label e)) = Fin v \<and> 50000 < v)
         \<or> parseFloat (replace_dollar_comma (GraphEdge.label e)) = PosInf)"
    by (cases "parseFloat (replace_dollar_comma (GraphEdge.label e))")
       (simp_all add: isSuspicious_def js_gt_def)
  have b: "isSuspicious e \<longleftrightarrow> CHR ''$'' \<in> set (GraphEdge.label e) \<and> 50000 < digitsVal ds"
    if "replace_dollar_comma (GraphEdge.label e) = ds @ rest" "ds \<noteq> []" "\<forall>c \<in> set ds. isDigit c"
       "ends_literal rest" "digitsVal ds < 2 ^ 53"
    using parseFloat_digits_exact [OF that(2-5)] that(1)
    by (simp add: isSuspicious_def js_gt_def)
  have c: "\<not> isSuspicious e" if "parseFloat (replace_dollar_comma (GraphEdge.label e)) = NaN"
    using that by (simp add: isSuspicious_def js_gt_def)
  have d1: "parseFloat ''50001'' = Fin 50001"
    using parseFloat_digits_exact [of "''50001''" "[]"]
    by (simp add: isDigit_def ends_literal_def digitsVal_def)
  have d2: "parseFloat ''50000'' = Fin 50000"
    using parseFloat_digits_exact [of "''50000''" "[]"]
    by (simp add: isDigit_def ends_literal_def digitsVal_def)
  have d: "isSuspicious (ex_edge s t ''$50,001'')" "\<not> isSuspicious (ex_edge s t ''$50,000'')"
    "\<not> isSuspicious (ex_edge s t ''50000'')"
    by (simp_all add: isSuspicious_def ex_edge_def replace_dollar_comma_def js_gt_def d1 d2)
  from a b c d show ?thesis by blast
qed

theorem suspicious_iff_witness:
  "replace_dollar_comma (GraphEdge.label (ex_edge ''a'' ''b'' ''$75,000 USD'')) = ''75000'' @ '' USD''
   \<and> ''75000'' \<noteq> [] \<and> list_all isDigit ''75000'' \<and> ends_literal '' USD''
   \<and> digitsVal ''75000'' = 75000 \<and> digitsVal ''75000'' < 2 ^ 53
   \<and> isSuspicious (ex_edge ''a'' ''b'' ''$75,000 USD'')
   \<and> parseFloat (replace_dollar_comma (GraphEdge.label (ex_edge ''a'' ''b'' ''$abc''))) = NaN
   \<and> \<not> isSuspicious (ex_edge ''a'' ''b'' ''$abc'')"
proof -
  have h1: "replace_dollar_comma (GraphEdge.label (ex_edge ''a'' ''b'' ''$75,000 USD'')) = ''75000'' @ '' USD''"
    by (simp add: replace_dollar_comma_def ex_edge_def)
  have h2: "list_all isDigit ''75000''" by (simp add: isDigit_def)
  then have h2': "\<forall>c \<in> set ''75000''. isDigit c" by (simp only: list_all_iff)
  have h3: "ends_literal '' USD''" by (simp add: ends_literal_def isDigit_def)
  have h4: "digitsVal ''75000'' = 75000" by (simp add: digitsVal_def)
  have h5: "digitsVal ''75000'' < 2 ^ 53" by (simp add: h4)
  have h6: "CHR ''$'' \<in> set (GraphEdge.label (ex_edge ''a'' ''b'' ''$75,000 USD''))"
    by (simp add: ex_edge_def)
  have n: "parseFloat (replace_dollar_comma (GraphEdge.label (ex_edge ''a'' ''b'' ''$abc''))) = NaN"
    by (simp add: replace_dollar_comma_def ex_edge_def parseFloat_def strUnsignedDecimalLiteral_def
        isWhiteSpace_def isDigit_def Let_def)
  from suspicious_iff [where e = "ex_edge ''a'' ''b'' ''$75,000 USD''" and ds = "''75000''"
      and rest = "'' USD''"] h1 h2' h3 h5 h6
  have "isSuspicious (ex_edge ''a'' ''b'' ''$75,000 USD'')
          \<longleftrightarrow> CHR ''$'' \<in> set (GraphEdge.label (ex_edge ''a'' ''b'' ''$75,000 USD''))
               \<and> 50000 < digitsVal ''75000''"
    by blast
  with h6 have s: "isSuspicious (ex_edge ''a'' ''b'' ''$75,000 USD'')" by (simp add: h4)
  from suspicious_iff [where e = "ex_edge ''a'' ''b'' ''$abc''"] n
  have u: "\<not> isSuspicious (ex_edge ''a'' ''b'' ''$abc'')" by blast
  from h1 h2 h3 h4 h5 s n u show ?thesis by simp
qed

lemmas parse_defs = parseFloat_def strUnsignedDecimalLiteral_def isWhiteSpace_def isDigit_def
  digitsVal_def exponentPart_def replace_dollar_comma_def Let_def

lemmas round_defs = round_double_def floor_log2_def round_at_def Let_def compute_floorlog

text \<open>The embedding of \<^verbatim>\<open>parseFloat\<close> on some inputs.\<close>

lemma parseFloat_finite_examples:
  "parseFloat ''0.1'' = Fin (3602879701896397 / 2 ^ 55)"
  "parseFloat '' -1.5e3xyz'' = Fin (- 1500)"
  "parseFloat ''.5'' = Fin (1 / 2)"
  "parseFloat ''5.'' = Fin 5"
  "parseFloat ''12px'' = Fin 12"
  "parseFloat ''1e5'' = Fin 100000"
  "parseFloat ''1e+'' = Fin 1"
  "parseFloat ''9007199254740993'' = Fin 9007199254740992"
  "parseFloat ''50000.000000000001'' = Fin 50000"
  "parseFloat ''50000.00000000001'' = Fin (50000 + 1 / 2 ^ 37)"
  by (simp add: parse_defs js_neg_def, simp add: round_defs)+

lemma parseFloat_other_examples:
  "parseFloat ''Infinity'' = PosInf"
  "parseFloat ''-Infinity'' = NegInf"
  "parseFloat ''abc'' = NaN"
  "parseFloat [] = NaN"
  "parseFloat ''.'' = NaN"
  "parseFloat ''USD 60000'' = NaN"
  by (simp_all add: parse_defs js_neg_def)

text \<open>
  The comparison is on the double: a label one part in \<open>10\<^sup>1\<^sup>2\<close> above 50000 parses to
  50000 and is not suspicious; an exponent and \<^verbatim>\<open>Infinity\<close> are read by \<^verbatim>\<open>parseFloat\<close>.
\<close>

lemma suspicious_examples:
  "\<not> isSuspicious (ex_edge s t ''$50000.000000000001'')"
  "isSuspicious (ex_edge s t ''$50000.00000000001'')"
  "isSuspicious (ex_edge s t ''$1e5'')"
  "isSuspicious (ex_edge s t ''$Infinity'')"
  "\<not> isSuspicious (ex_edge s t ''USD $60,000'')"
  "\<not> isSuspicious (ex_edge s t ''60000'')"
  "\<not> isSuspicious (ex_edge s t [])"
  by (simp_all add: isSuspicious_def ex_edge_def replace_dollar_comma_def
      parseFloat_finite_examples parseFloat_other_examples js_gt_def)

end
